theory Spec2Isabelle
  imports Complex_Main
begin

section \<open>The Snake engine of \<open>src/app/(tabs)/snake.tsx\<close>\<close>

text \<open>
  The source file holds two variants of the same screen. Variant A (lines 1-278) keeps
  a \<open>foodRef\<close> and a \<open>growthRef\<close>; variant B (lines 279-584) has neither and reads
  \<open>food\<close> from the closure of \<open>step\<close>. The constants, \<open>moveHead\<close>, \<open>randomFood\<close>,
  \<open>changeDir\<close> and \<open>resetGame\<close> are the same text in both variants and are embedded once.

  Modelling decisions.
  \<^item> Coordinates, score and speed are JavaScript numbers that only ever hold integers
    here; they are \<open>int\<close>. A draw of \<open>Math.random()\<close> is a double in \<open>[0, 1)\<close>, given
    as the rational it denotes; the product \<open>Math.random() * BOARD_COLS\<close> is the exact
    product rounded to the nearest double (\<open>fl\<close>) and then floored, as \<open>Math.floor\<close> does.
    \<open>ms * 0.96\<close> is computed exactly and floored; at every speed a game can reach the
    rounded product has the same floor (\<open>speedUp_double\<close>).
  \<^item> The React state hooks are the fields of a record. The refs \<open>dirRef\<close>, \<open>runningRef\<close>
    and \<open>foodRef\<close> mirror \<open>dir\<close>, \<open>running\<close> and \<open>food\<close> (an effect copies the state
    into the ref after every render, and \<open>foodRef\<close> is also written together with
    \<open>setFood\<close>), so a ref and its state are one field. \<open>growthRef\<close> has no state hook
    and is a field of its own in variant A.
  \<^item> In variant B the step the interval calls is the one of the render in which the
    interval was last started, and the effect that starts it depends on \<open>[speed]\<close> only
    (lines 322-328). \<open>stepB\<close> takes the food of its closure as a parameter; \<open>fireLoopB\<close>
    keeps that food next to the state hooks and replaces it when the speed changes.
    \<open>reachableB\<close> lets a tick read any food and so covers every such run.
  \<^item> \<open>setTimeout(..., 600)\<close> is a counter of pending reset timers; the callback is an
    event of its own that can only happen while a timer is pending. The 600 ms are not
    modelled, only the order of events.
  \<^item> \<open>Math.random()\<close> is a list of draws handed to the function that consumes them.
    \<open>randomFood\<close> loops until a draw is free; a list of draws that are all rejected
    gives \<open>None\<close> (the loop has not returned).
  \<^item> \<open>prev[0]\<close> of an empty snake is \<open>undefined\<close> and \<open>moveHead\<close> then throws a
    \<open>TypeError\<close>; this is the error \<open>TypeError\<close> of the model.
  \<^item> \<open>Direction\<close> has four values, so the \<open>default\<close> branch of \<open>moveHead\<close> in
    variant A is never taken and has no equation.
\<close>

subsection \<open>Data\<close>

record Point =
  x :: int
  y :: int

datatype Direction = UP | DOWN | LEFT | RIGHT

datatype error = TypeError | NoReturn

definition BOARD_COLS :: int where
  "BOARD_COLS = 20"

definition BOARD_ROWS :: int where
  "BOARD_ROWS = 26"

definition INITIAL_SNAKE :: "Point list" where
  "INITIAL_SNAKE = [\<lparr>x = 5, y = 10\<rparr>, \<lparr>x = 4, y = 10\<rparr>, \<lparr>x = 3, y = 10\<rparr>]"

definition INITIAL_DIR :: Direction where
  "INITIAL_DIR = RIGHT"

definition BASE_SPEED_MS :: int where
  "BASE_SPEED_MS = 140"

text \<open>The state hooks of \<open>SnakeScreen\<close> (both variants), and the pending reset timers.\<close>

record game =
  snake :: "Point list"
  dir :: Direction
  food :: Point
  running :: bool
  score :: int
  speed :: int
  timers :: nat

text \<open>Variant A adds \<open>growthRef\<close> (line 35).\<close>

record gameA = game +
  growthRef :: int

subsection \<open>Functions shared by both variants\<close>

text \<open>\<open>moveHead\<close> (lines 196-204 and 473-484).\<close>

fun moveHead :: "Point \<Rightarrow> Direction \<Rightarrow> Point" where
  "moveHead head UP = \<lparr>x = x head, y = y head - 1\<rparr>"
| "moveHead head DOWN = \<lparr>x = x head, y = y head + 1\<rparr>"
| "moveHead head LEFT = \<lparr>x = x head - 1, y = y head\<rparr>"
| "moveHead head RIGHT = \<lparr>x = x head + 1, y = y head\<rparr>"

text \<open>
  Double-precision arithmetic. A JavaScript number is an IEEE 754 binary64 value; the
  finite non-negative ones are modelled as the rationals they denote. \<open>binade 1023 p\<close>
  is the exponent of \<open>p\<close>: the largest \<open>e \<le> 1023\<close> with \<open>2 powi e \<le> p\<close>, and \<open>-1022\<close> for
  zero and the subnormal numbers. The doubles of that exponent are the multiples of
  \<open>ulp p\<close>, and \<open>fl p\<close> is the one nearest to \<open>p\<close>, the even multiple in a tie: the
  result of an operation whose exact value is \<open>p\<close>, for \<open>p\<close> below the overflow
  threshold. A rational is a double when rounding leaves it as it is.
\<close>

function binade :: "int \<Rightarrow> rat \<Rightarrow> int" where
  "binade e p = (if e \<le> - 1022 \<or> 2 powi e \<le> p then e else binade (e - 1) p)"
  by auto
termination
  by (relation "measure (\<lambda>(e, p). nat (e + 1022))") auto

declare binade.simps [simp del]

definition roundEven :: "rat \<Rightarrow> int" where
  "roundEven q =
     (let n = \<lfloor>q\<rfloor>; r = q - of_int n
      in if r < 1/2 then n else if 1/2 < r then n + 1 else if even n then n else n + 1)"

definition ulp :: "rat \<Rightarrow> rat" where
  "ulp p = 2 powi (binade 1023 p - 52)"

definition fl :: "rat \<Rightarrow> rat" where
  "fl p = of_int (roundEven (p / ulp p)) * ulp p"

definition isDouble :: "rat \<Rightarrow> bool" where
  "isDouble r \<longleftrightarrow> fl r = r"

text \<open>
  \<open>randomFood\<close> (lines 206-212 and 486-494). Each round of the loop reads two draws
  of \<open>Math.random()\<close>, first for \<open>x\<close> and then for \<open>y\<close>; each product is a double
  product.
\<close>

fun randomFood :: "Point list \<Rightarrow> rat list \<Rightarrow> Point option" where
  "randomFood occupied (u # v # rs) =
     (let fx = \<lfloor>fl (u * of_int BOARD_COLS)\<rfloor>;
          fy = \<lfloor>fl (v * of_int BOARD_ROWS)\<rfloor>
      in if \<not> list_ex (\<lambda>p. x p = fx \<and> y p = fy) occupied then Some \<lparr>x = fx, y = fy\<rparr>
         else randomFood occupied rs)"
| "randomFood occupied rs = None"

text \<open>\<open>changeDir\<close> (lines 114-124 and 379-390): the updater given to \<open>setDir\<close>.\<close>

definition changeDir :: "Direction \<Rightarrow> 'a game_scheme \<Rightarrow> 'a game_scheme" where
  "changeDir next s =
     (let curr = dir s
      in if (curr = UP \<and> next = DOWN) \<or>
            (curr = DOWN \<and> next = UP) \<or>
            (curr = LEFT \<and> next = RIGHT) \<or>
            (curr = RIGHT \<and> next = LEFT)
         then s\<lparr>dir := curr\<rparr>
         else s\<lparr>dir := next\<rparr>)"

text \<open>
  \<open>resetGame\<close> (lines 42-55 and 367-377), the part that runs at once:
  \<open>setRunning(false)\<close> and the start of a 600 ms timer.
\<close>

definition resetGame :: "'a game_scheme \<Rightarrow> 'a game_scheme" where
  "resetGame s = s\<lparr>running := False, timers := Suc (timers s)\<rparr>"

text \<open>The wall test of \<open>step\<close> (lines 65-70 and 335-340).\<close>

definition hitsWall :: "Point \<Rightarrow> bool" where
  "hitsWall nextHead \<longleftrightarrow>
     x nextHead < 0 \<or> x nextHead \<ge> BOARD_COLS \<or> y nextHead < 0 \<or> y nextHead \<ge> BOARD_ROWS"

text \<open>\<open>Math.max(70, Math.floor(ms * 0.96))\<close> (lines 92 and 360).\<close>

definition speedUp :: "int \<Rightarrow> int" where
  "speedUp ms = max 70 \<lfloor>of_int ms * (0.96 :: rat)\<rfloor>"

subsection \<open>Variant A\<close>

text \<open>The timer callback of \<open>resetGame\<close> (lines 44-54).\<close>

definition resetTimeoutA :: "rat list \<Rightarrow> gameA \<Rightarrow> error + gameA" where
  "resetTimeoutA rs s =
     (case randomFood INITIAL_SNAKE rs of
        None \<Rightarrow> Inl NoReturn
      | Some f \<Rightarrow>
          Inr (s\<lparr>snake := INITIAL_SNAKE, dir := INITIAL_DIR, food := f,
                 speed := BASE_SPEED_MS, score := 0, growthRef := 0,
                 running := True, timers := timers s - 1\<rparr>))"

text \<open>The food bookkeeping of \<open>step\<close> (lines 84-93), given the new food.\<close>

definition foodBookkeeping :: "Point \<Rightarrow> gameA \<Rightarrow> gameA" where
  "foodBookkeeping newFood s =
     s\<lparr>growthRef := growthRef s + 1, score := score s + 1, food := newFood,
       speed := speedUp (speed s)\<rparr>"

text \<open>The tail adjustment of \<open>step\<close> (lines 95-101); \<open>pop\<close> drops the last cell.\<close>

definition tailAdjust :: "Point list \<Rightarrow> gameA \<Rightarrow> gameA" where
  "tailAdjust newSnake s =
     (if growthRef s > 0 then s\<lparr>growthRef := growthRef s - 1, snake := newSnake\<rparr>
      else s\<lparr>snake := butlast newSnake\<rparr>)"

text \<open>\<open>step\<close> of variant A (lines 57-103); \<open>slice(0, -1)\<close> is \<open>butlast\<close>.\<close>

definition stepA :: "rat list \<Rightarrow> gameA \<Rightarrow> error + gameA" where
  "stepA rs s =
     (case snake s of
        [] \<Rightarrow> Inl TypeError
      | head # _ \<Rightarrow>
         (let prev = snake s;
              currentFood = food s;
              nextHead = moveHead head (dir s);
              ateFood = (x nextHead = x currentFood \<and> y nextHead = y currentFood);
              willMoveTail = (\<not> ateFood \<and> growthRef s = 0)
          in if hitsWall nextHead then Inr ((resetGame s)\<lparr>snake := INITIAL_SNAKE\<rparr>)
             else
              (let bodyToCheck = (if willMoveTail then butlast prev else prev);
                   hitsSelf = list_ex (\<lambda>p. x p = x nextHead \<and> y p = y nextHead) bodyToCheck
               in if hitsSelf then Inr ((resetGame s)\<lparr>snake := INITIAL_SNAKE\<rparr>)
                  else
                   (let newSnake = nextHead # prev
                    in if ateFood then
                         (case randomFood newSnake rs of
                            None \<Rightarrow> Inl NoReturn
                          | Some newFood \<Rightarrow> Inr (tailAdjust newSnake (foodBookkeeping newFood s)))
                       else Inr (tailAdjust newSnake s)))))"

text \<open>
  The events of the screen: a tick of the interval (lines 106-112) with the draws it may
  consume, a direction request, the Pause/Resume and Restart buttons (lines 187-189), and
  the firing of a reset timer with its draws.
\<close>

datatype event =
    Tick "rat list"
  | ChangeDir Direction
  | TogglePause
  | Restart
  | ResetTimeout "rat list"

fun fireA :: "event \<Rightarrow> gameA \<Rightarrow> error + gameA" where
  "fireA (Tick rs) s = (if \<not> running s then Inr s else stepA rs s)"
| "fireA (ChangeDir next) s = Inr (changeDir next s)"
| "fireA TogglePause s = Inr (s\<lparr>running := \<not> running s\<rparr>)"
| "fireA Restart s = Inr (resetGame s)"
| "fireA (ResetTimeout rs) s = (if timers s = 0 then Inr s else resetTimeoutA rs s)"

fun runA :: "event list \<Rightarrow> gameA \<Rightarrow> error + gameA" where
  "runA [] s = Inr s"
| "runA (e # es) s = (case fireA e s of Inl err \<Rightarrow> Inl err | Inr s' \<Rightarrow> runA es s')"

text \<open>The first render (lines 24-35): the food is drawn by \<open>randomFood(INITIAL_SNAKE)\<close>.\<close>

definition initA :: "rat list \<Rightarrow> error + gameA" where
  "initA rs =
     (case randomFood INITIAL_SNAKE rs of
        None \<Rightarrow> Inl NoReturn
      | Some f \<Rightarrow>
          Inr \<lparr>snake = INITIAL_SNAKE, dir = INITIAL_DIR, food = f, running = True,
               score = 0, speed = BASE_SPEED_MS, timers = 0, growthRef = 0\<rparr>)"

inductive reachableA :: "gameA \<Rightarrow> bool" where
  start: "initA rs = Inr s \<Longrightarrow> reachableA s"
| event: "reachableA s \<Longrightarrow> fireA e s = Inr s' \<Longrightarrow> reachableA s'"

subsection \<open>Variant B\<close>

text \<open>
  \<open>step\<close> of variant B (lines 330-365). It reads \<open>food\<close> from its closure
  (\<open>useCallback(..., [food])\<close>), not from the state at the time of the tick: the closure's
  food is the parameter \<open>closureFood\<close>.
\<close>

definition stepB :: "Point \<Rightarrow> rat list \<Rightarrow> game \<Rightarrow> error + game" where
  "stepB closureFood rs s =
     (case snake s of
        [] \<Rightarrow> Inl TypeError
      | head # _ \<Rightarrow>
         (let prev = snake s;
              nextHead = moveHead head (dir s)
          in if hitsWall nextHead then Inr ((resetGame s)\<lparr>snake := INITIAL_SNAKE\<rparr>)
             else
              (let hitsSelf = list_ex (\<lambda>p. x p = x nextHead \<and> y p = y nextHead) prev
               in if hitsSelf then Inr ((resetGame s)\<lparr>snake := INITIAL_SNAKE\<rparr>)
                  else
                   (let ateFood = (x nextHead = x closureFood \<and> y nextHead = y closureFood);
                        newSnake = nextHead # prev
                    in if \<not> ateFood then Inr (s\<lparr>snake := butlast newSnake\<rparr>)
                       else
                        (case randomFood newSnake rs of
                           None \<Rightarrow> Inl NoReturn
                         | Some newFood \<Rightarrow>
                             Inr (s\<lparr>snake := newSnake, score := score s + 1, food := newFood,
                                    speed := speedUp (speed s)\<rparr>))))))"

text \<open>The timer callback of \<open>resetGame\<close> (lines 369-376).\<close>

definition resetTimeoutB :: "rat list \<Rightarrow> game \<Rightarrow> error + game" where
  "resetTimeoutB rs s =
     (case randomFood INITIAL_SNAKE rs of
        None \<Rightarrow> Inl NoReturn
      | Some f \<Rightarrow>
          Inr (s\<lparr>snake := INITIAL_SNAKE, dir := INITIAL_DIR, food := f,
                 speed := BASE_SPEED_MS, score := 0,
                 running := True, timers := timers s - 1\<rparr>))"

definition initB :: "rat list \<Rightarrow> error + game" where
  "initB rs =
     (case randomFood INITIAL_SNAKE rs of
        None \<Rightarrow> Inl NoReturn
      | Some f \<Rightarrow>
          Inr \<lparr>snake = INITIAL_SNAKE, dir = INITIAL_DIR, food = f, running = True,
               score = 0, speed = BASE_SPEED_MS, timers = 0\<rparr>)"

text \<open>
  The events of variant B. Which food the closure of the interval's \<open>step\<close> holds
  depends on the render in which the interval was last restarted, so every event comes
  with the food a tick would read then (the other events ignore it).
\<close>

fun fireB :: "Point \<Rightarrow> event \<Rightarrow> game \<Rightarrow> error + game" where
  "fireB closureFood (Tick rs) s = (if \<not> running s then Inr s else stepB closureFood rs s)"
| "fireB closureFood (ChangeDir next) s = Inr (changeDir next s)"
| "fireB closureFood TogglePause s = Inr (s\<lparr>running := \<not> running s\<rparr>)"
| "fireB closureFood Restart s = Inr (resetGame s)"
| "fireB closureFood (ResetTimeout rs) s = (if timers s = 0 then Inr s else resetTimeoutB rs s)"

fun runB :: "(Point \<times> event) list \<Rightarrow> game \<Rightarrow> error + game" where
  "runB [] s = Inr s"
| "runB ((closureFood, e) # es) s =
     (case fireB closureFood e s of Inl err \<Rightarrow> Inl err | Inr s' \<Rightarrow> runB es s')"

inductive reachableB :: "game \<Rightarrow> bool" where
  startB: "initB rs = Inr s \<Longrightarrow> reachableB s"
| eventB: "reachableB s \<Longrightarrow> fireB closureFood e s = Inr s' \<Longrightarrow> reachableB s'"

text \<open>
  The interval of variant B (lines 322-328). Its effect depends on \<open>[speed]\<close> only, so
  the interval, and with it the \<open>step\<close> it calls and the food in the closure of that
  \<open>step\<close>, is replaced only by a render in which \<open>speed\<close> has changed; it then holds
  the food of that render. The state of the running screen is the food in the closure
  of the interval's \<open>step\<close> together with the state hooks; at the first render the
  closure holds the first food.
\<close>

definition effectB :: "game \<Rightarrow> Point \<Rightarrow> game \<Rightarrow> Point" where
  "effectB s closureFood s' = (if speed s' \<noteq> speed s then food s' else closureFood)"

fun fireLoopB :: "event \<Rightarrow> Point \<times> game \<Rightarrow> error + Point \<times> game" where
  "fireLoopB e (closureFood, s) =
     (case fireB closureFood e s of
        Inl err \<Rightarrow> Inl err
      | Inr s' \<Rightarrow> Inr (effectB s closureFood s', s'))"

fun runLoopB :: "event list \<Rightarrow> Point \<times> game \<Rightarrow> error + Point \<times> game" where
  "runLoopB [] cs = Inr cs"
| "runLoopB (e # es) cs =
     (case fireLoopB e cs of Inl err \<Rightarrow> Inl err | Inr cs' \<Rightarrow> runLoopB es cs')"

definition initLoopB :: "rat list \<Rightarrow> error + Point \<times> game" where
  "initLoopB rs = (case initB rs of Inl err \<Rightarrow> Inl err | Inr s \<Rightarrow> Inr (food s, s))"

subsection \<open>The direction opposite to a direction\<close>

text \<open>The reversal named by the specification: UP and DOWN, LEFT and RIGHT.\<close>

fun opposite :: "Direction \<Rightarrow> Direction" where
  "opposite UP = DOWN"
| "opposite DOWN = UP"
| "opposite LEFT = RIGHT"
| "opposite RIGHT = LEFT"

subsection \<open>States of the scenarios\<close>

text \<open>
  The state of the specification's eating scenario: the initial snake, moving RIGHT,
  food at \<open>(6,10)\<close>, score 0, speed 140.
\<close>

definition scenarioA :: gameA where
  "scenarioA =
     \<lparr>snake = [\<lparr>x = 5, y = 10\<rparr>, \<lparr>x = 4, y = 10\<rparr>, \<lparr>x = 3, y = 10\<rparr>], dir = RIGHT,
      food = \<lparr>x = 6, y = 10\<rparr>, running = True, score = 0, speed = 140, timers = 0,
      growthRef = 0\<rparr>"

definition scenarioB :: game where
  "scenarioB =
     \<lparr>snake = [\<lparr>x = 5, y = 10\<rparr>, \<lparr>x = 4, y = 10\<rparr>, \<lparr>x = 3, y = 10\<rparr>], dir = RIGHT,
      food = \<lparr>x = 6, y = 10\<rparr>, running = True, score = 0, speed = 140, timers = 0\<rparr>"

text \<open>The same states after a step that eats, the new food drawn at \<open>(10,13)\<close>.\<close>

definition fedA :: gameA where
  "fedA =
     \<lparr>snake = [\<lparr>x = 6, y = 10\<rparr>, \<lparr>x = 5, y = 10\<rparr>, \<lparr>x = 4, y = 10\<rparr>, \<lparr>x = 3, y = 10\<rparr>],
      dir = RIGHT, food = \<lparr>x = 10, y = 13\<rparr>, running = True, score = 1, speed = 134,
      timers = 0, growthRef = 0\<rparr>"

definition fedB :: game where
  "fedB =
     \<lparr>snake = [\<lparr>x = 6, y = 10\<rparr>, \<lparr>x = 5, y = 10\<rparr>, \<lparr>x = 4, y = 10\<rparr>, \<lparr>x = 3, y = 10\<rparr>],
      dir = RIGHT, food = \<lparr>x = 10, y = 13\<rparr>, running = True, score = 1, speed = 134,
      timers = 0\<rparr>"

text \<open>A sequence of steps, one after the other, stopping at the first that fails.\<close>

fun stepsA :: "rat list list \<Rightarrow> gameA \<Rightarrow> error + gameA" where
  "stepsA [] s = Inr s"
| "stepsA (rs # rss) s = (case stepA rs s of Inl err \<Rightarrow> Inl err | Inr s' \<Rightarrow> stepsA rss s')"

fun stepsB :: "(Point \<times> rat list) list \<Rightarrow> game \<Rightarrow> error + game" where
  "stepsB [] s = Inr s"
| "stepsB ((closureFood, rs) # rss) s =
     (case stepB closureFood rs s of Inl err \<Rightarrow> Inl err | Inr s' \<Rightarrow> stepsB rss s')"

text \<open>
  A state in the pause after a collision: the snake is already \<open>INITIAL_SNAKE\<close>, the
  direction is still the one of the collision, one reset timer is pending.
\<close>

definition pausedA :: gameA where
  "pausedA =
     \<lparr>snake = [\<lparr>x = 5, y = 10\<rparr>, \<lparr>x = 4, y = 10\<rparr>, \<lparr>x = 3, y = 10\<rparr>], dir = LEFT,
      food = \<lparr>x = 6, y = 10\<rparr>, running = False, score = 0, speed = 140, timers = 1,
      growthRef = 0\<rparr>"

definition pausedB :: game where
  "pausedB =
     \<lparr>snake = [\<lparr>x = 5, y = 10\<rparr>, \<lparr>x = 4, y = 10\<rparr>, \<lparr>x = 3, y = 10\<rparr>], dir = LEFT,
      food = \<lparr>x = 6, y = 10\<rparr>, running = False, score = 0, speed = 140, timers = 1\<rparr>"

text \<open>
  The wall scenario of the specification: the head at \<open>(19,10)\<close>, moving RIGHT.
\<close>

definition wallA :: gameA where
  "wallA =
     \<lparr>snake = [\<lparr>x = 19, y = 10\<rparr>, \<lparr>x = 18, y = 10\<rparr>, \<lparr>x = 17, y = 10\<rparr>], dir = RIGHT,
      food = \<lparr>x = 6, y = 10\<rparr>, running = True, score = 0, speed = 140, timers = 0,
      growthRef = 0\<rparr>"

definition wallB :: game where
  "wallB =
     \<lparr>snake = [\<lparr>x = 19, y = 10\<rparr>, \<lparr>x = 18, y = 10\<rparr>, \<lparr>x = 17, y = 10\<rparr>], dir = RIGHT,
      food = \<lparr>x = 6, y = 10\<rparr>, running = True, score = 0, speed = 140, timers = 0\<rparr>"

text \<open>
  A snake of four cells whose next head is the cell its tail is about to leave.
\<close>

definition chaseA :: gameA where
  "chaseA =
     \<lparr>snake = [\<lparr>x = 5, y = 11\<rparr>, \<lparr>x = 6, y = 11\<rparr>, \<lparr>x = 6, y = 10\<rparr>, \<lparr>x = 5, y = 10\<rparr>],
      dir = UP, food = \<lparr>x = 10, y = 13\<rparr>, running = True, score = 1, speed = 134,
      timers = 0, growthRef = 0\<rparr>"

definition chaseB :: game where
  "chaseB =
     \<lparr>snake = [\<lparr>x = 5, y = 11\<rparr>, \<lparr>x = 6, y = 11\<rparr>, \<lparr>x = 6, y = 10\<rparr>, \<lparr>x = 5, y = 10\<rparr>],
      dir = UP, food = \<lparr>x = 10, y = 13\<rparr>, running = True, score = 1, speed = 134,
      timers = 0\<rparr>"


text \<open>
  A first render whose food is drawn at \<open>(10,13)\<close>, and the state of the eating
  scenario after a step that moved the head onto \<open>(6,10)\<close> without eating.
\<close>

definition freshA :: gameA where
  "freshA =
     \<lparr>snake = [\<lparr>x = 5, y = 10\<rparr>, \<lparr>x = 4, y = 10\<rparr>, \<lparr>x = 3, y = 10\<rparr>], dir = RIGHT,
      food = \<lparr>x = 10, y = 13\<rparr>, running = True, score = 0, speed = 140, timers = 0,
      growthRef = 0\<rparr>"

definition freshB :: game where
  "freshB =
     \<lparr>snake = [\<lparr>x = 5, y = 10\<rparr>, \<lparr>x = 4, y = 10\<rparr>, \<lparr>x = 3, y = 10\<rparr>], dir = RIGHT,
      food = \<lparr>x = 10, y = 13\<rparr>, running = True, score = 0, speed = 140, timers = 0\<rparr>"

definition missedB :: game where
  "missedB =
     \<lparr>snake = [\<lparr>x = 6, y = 10\<rparr>, \<lparr>x = 5, y = 10\<rparr>, \<lparr>x = 4, y = 10\<rparr>], dir = RIGHT,
      food = \<lparr>x = 6, y = 10\<rparr>, running = True, score = 0, speed = 140, timers = 0\<rparr>"

text \<open>The speeds a game can have: 140 and its images under \<open>speedUp\<close>.\<close>

definition speedLadder :: "int set" where
  "speedLadder = {140, 134, 128, 122, 117, 112, 107, 102, 97, 93, 89, 85, 81, 77, 73, 70}"

section \<open>Arithmetic and membership\<close>

lemma floor_rat_numeral: "\<lfloor>(numeral a / numeral b :: rat)\<rfloor> = numeral a div numeral b"
  by (metis floor_divide_of_int_eq of_int_numeral)

section \<open>Rounding to a double\<close>

lemma binade_le: "binade e p \<le> e"
proof (induction e p rule: binade.induct)
  case (1 e p)
  then show ?case by (subst binade.simps) auto
qed

lemma binade_upper:
  assumes "- 1022 \<le> k" "p < 2 powi (k + 1)"
  shows "binade e p \<le> k"
  using assms
proof (induction e p rule: binade.induct)
  case (1 e p)
  show ?case
  proof (cases "e \<le> - 1022 \<or> 2 powi e \<le> p")
    case True
    then have b: "binade e p = e" by (subst binade.simps) simp
    from True show ?thesis
    proof
      assume "e \<le> - 1022" with b "1.prems"(1) show ?thesis by simp
    next
      assume "2 powi e \<le> p"
      with "1.prems"(2) have "(2::rat) powi e < 2 powi (k + 1)" by simp
      then have "e < k + 1"
        using power_int_increasing [of "k + 1" e "2::rat"] by (cases "e < k + 1") auto
      with b show ?thesis by simp
    qed
  next
    case False
    then have b: "binade e p = binade (e - 1) p" by (subst binade.simps) simp
    with "1.IH" [OF False "1.prems"] show ?thesis by simp
  qed
qed

lemma binade_lower:
  assumes "k \<le> e" "2 powi k \<le> p"
  shows "k \<le> binade e p"
  using assms
proof (induction e p rule: binade.induct)
  case (1 e p)
  show ?case
  proof (cases "e \<le> - 1022 \<or> 2 powi e \<le> p")
    case True
    then have "binade e p = e" by (subst binade.simps) simp
    with "1.prems" show ?thesis by simp
  next
    case False
    then have b: "binade e p = binade (e - 1) p" by (subst binade.simps) simp
    from False "1.prems"(2) have "e \<noteq> k" by auto
    with "1.prems"(1) have "k \<le> e - 1" by simp
    with "1.IH" [OF False this "1.prems"(2)] b show ?thesis by simp
  qed
qed

text \<open>The exponent of a normal number: \<open>2 powi e \<le> p < 2 powi (e + 1)\<close>.\<close>

lemma binade_exact:
  assumes "- 1022 \<le> k" "k \<le> 1023" "2 powi k \<le> p" "p < 2 powi (k + 1)"
  shows "binade 1023 p = k"
  using binade_upper [OF assms(1,4), of 1023] binade_lower [OF assms(2,3)] by simp

lemma binade_skip:
  assumes "- 1022 \<le> k" "k \<le> e" "p < 2 powi (k + 1)"
  shows "binade e p = binade k p"
  using assms
proof (induction e p rule: binade.induct)
  case (1 e p)
  show ?case
  proof (cases "e = k")
    case True
    then show ?thesis by simp
  next
    case False
    with "1.prems" have lt: "k + 1 \<le> e" by simp
    then have "(2::rat) powi (k + 1) \<le> 2 powi e" by (intro power_int_increasing) simp_all
    with "1.prems"(3) have c: "\<not> (e \<le> - 1022 \<or> 2 powi e \<le> p)"
      using "1.prems"(1) lt by auto
    then have "binade e p = binade (e - 1) p" by (subst binade.simps) simp
    also have "\<dots> = binade k p" using "1.IH" [OF c "1.prems"(1) _ "1.prems"(3)] lt by simp
    finally show ?thesis .
  qed
qed

lemma roundEven_of_int: "roundEven (of_int k) = k"
  by (simp add: roundEven_def)

lemma roundEven_nonneg: "0 \<le> q \<Longrightarrow> 0 \<le> roundEven q"
  by (auto simp: roundEven_def Let_def)

lemma roundEven_below:
  assumes "q < of_int N - 1/2"
  shows "roundEven q \<le> N - 1"
proof -
  let ?n = "\<lfloor>q\<rfloor>"
  have n1: "?n \<le> N - 1" using assms by (simp add: floor_le_iff) linarith
  show ?thesis
  proof (cases "q - of_int ?n < 1/2")
    case True
    then show ?thesis using n1 by (simp add: roundEven_def Let_def)
  next
    case False
    then have "of_int ?n + 1/2 \<le> q" by simp
    with assms have "(of_int ?n :: rat) < of_int N - 1" by simp
    then have "(of_int ?n :: rat) < of_int (N - 1)" by simp
    then have "?n < N - 1" by (simp only: of_int_less_iff)
    then show ?thesis by (auto simp: roundEven_def Let_def)
  qed
qed

lemma ulp_below:
  assumes "- 1022 \<le> k" "k \<le> 51" "p < 2 powi (k + 1)"
  shows "\<exists>m. ulp p = 1 / 2 ^ m \<and> nat (52 - k) \<le> m"
proof -
  have b: "binade 1023 p \<le> k" using assms by (intro binade_upper) simp_all
  let ?m = "nat (52 - binade 1023 p)"
  have "binade 1023 p - 52 = - int ?m" using b assms(2) by simp
  then have "ulp p = 2 powi (- int ?m)" by (simp only: ulp_def)
  also have "\<dots> = 1 / 2 powi (int ?m)" by (rule power_int_minus_divide)
  also have "\<dots> = 1 / 2 ^ ?m" by (simp only: power_int_of_nat)
  finally have "ulp p = 1 / 2 ^ ?m" .
  moreover have "nat (52 - k) \<le> ?m" using b by simp
  ultimately show ?thesis by blast
qed

text \<open>
  The rounded product of a number up to the largest double below 1 and a board dimension
  stays below the dimension, so its floor is a column or a row of the board.
\<close>

lemma fl_product_below:
  assumes "0 \<le> r" "r \<le> 1 - 1 / 2 ^ 53" "16 < n" "n \<le> 32"
  shows "0 \<le> \<lfloor>fl (r * of_int n)\<rfloor> \<and> \<lfloor>fl (r * of_int n)\<rfloor> < n"
proof -
  define c :: rat where "c = 2 ^ 53"
  have c: "0 < c" "c = 32 * 2 ^ 48" by (simp_all add: c_def)
  define N :: rat where "N = of_int n"
  have N: "17 \<le> N" "N \<le> 32" using assms(3,4) by (simp_all add: N_def)
  let ?p = "r * N"
  have p0: "0 \<le> ?p" using assms(1) N by simp
  have "?p \<le> (1 - 1 / c) * N" using assms(2) N unfolding c_def by (intro mult_right_mono) simp_all
  then have pn: "?p \<le> N - N / c" by (simp add: left_diff_distrib)
  have "0 < N / c" using N c(1) by simp
  with pn N have "?p < 32" by linarith
  then have "?p < 2 powi (4 + 1)" by simp
  from ulp_below [OF _ _ this] obtain m where u: "ulp ?p = 1 / 2 ^ m" and m: "48 \<le> m" by auto
  define t :: rat where "t = 2 ^ m"
  have t0: "0 < t" by (simp add: t_def)
  have "(2::rat) ^ 48 \<le> 2 ^ m" using m by (intro power_increasing) simp_all
  then have t48: "c \<le> 32 * t" by (simp add: c(2) t_def)
  have q: "?p / ulp ?p = ?p * t" using u by (simp add: t_def)
  have "c * (1 / 2) < 17 * t" using t48 t0 by linarith
  also have "\<dots> \<le> N * t" using N(1) t0 by (intro mult_right_mono) simp_all
  finally have "1 / 2 < N * t / c" using c(1) by (simp add: field_simps)
  moreover have "?p * t \<le> (N - N / c) * t" using pn t0 by (intro mult_right_mono) simp_all
  moreover have "(N - N / c) * t = N * t - N * t / c" by (simp add: left_diff_distrib)
  ultimately have "?p * t < N * t - 1 / 2" by linarith
  moreover have "N * t = of_int (n * 2 ^ m)" by (simp add: N_def t_def)
  ultimately have "?p * t < of_int (n * 2 ^ m) - 1 / 2" by simp
  then have "roundEven (?p * t) \<le> n * 2 ^ m - 1" by (rule roundEven_below)
  then have "(of_int (roundEven (?p * t)) :: rat) \<le> of_int (n * 2 ^ m - 1)"
    by (simp only: of_int_le_iff)
  also have "\<dots> = N * t - 1" by (simp add: N_def t_def)
  finally have "of_int (roundEven (?p * t)) / t \<le> (N * t - 1) / t"
    using t0 by (intro divide_right_mono) simp_all
  also have "\<dots> = N - 1 / t" using t0 by (simp add: diff_divide_distrib)
  also have "\<dots> < N" using t0 by simp
  finally have "fl ?p < N" unfolding fl_def q u by (simp add: t_def)
  then have up: "\<lfloor>fl ?p\<rfloor> < n" by (simp add: floor_less_iff N_def)
  have "0 \<le> ?p * t" using p0 t0 by simp
  then have "0 \<le> roundEven (?p * t)" by (rule roundEven_nonneg)
  then have "0 \<le> fl ?p" unfolding fl_def q u by (simp add: t_def)
  then have "0 \<le> \<lfloor>fl ?p\<rfloor>" by simp
  with up show ?thesis by (simp add: N_def)
qed

text \<open>A double below 1 is at most \<open>1 - 2 ^ -53\<close>.\<close>

lemma double_below_one:
  assumes "isDouble r" "0 \<le> r" "r < 1"
  shows "r \<le> 1 - 1 / 2 ^ 53"
proof (cases "r < 1 / 2")
  case True
  then show ?thesis by simp
next
  case False
  then have h: "2 powi (- 1) \<le> r" by (simp add: power_int_minus_divide)
  have "binade 1023 r = - 1" using h assms(3) by (intro binade_exact) simp_all
  then have u: "ulp r = 1 / 2 ^ 53" by (simp add: ulp_def power_int_minus_divide)
  define K where "K = roundEven (r / ulp r)"
  from assms(1) have r: "r = of_int K / 2 ^ 53" by (simp add: isDouble_def fl_def K_def u)
  with assms(3) have "(of_int K :: rat) < 2 ^ 53" by simp
  then have "(of_int K :: rat) < of_int (2 ^ 53)" by simp
  then have "K < 2 ^ 53" by (simp only: of_int_less_iff)
  then have "K \<le> 2 ^ 53 - 1" by simp
  then have "(of_int K :: rat) \<le> of_int (2 ^ 53 - 1)" by (simp only: of_int_le_iff)
  then have "(of_int K :: rat) / 2 ^ 53 \<le> of_int (2 ^ 53 - 1) / 2 ^ 53"
    by (intro divide_right_mono) simp_all
  with r show ?thesis by simp
qed

text \<open>Rounding a number below \<open>2 powi (k + 1)\<close>: the search for the exponent starts at \<open>k\<close>.\<close>

lemma fl_skip:
  assumes "- 1022 \<le> k" "k \<le> 1023" "p < 2 powi (k + 1)"
  shows "fl p = of_int (roundEven (p / 2 powi (binade k p - 52))) * 2 powi (binade k p - 52)"
proof -
  have "binade 1023 p = binade k p" using assms by (intro binade_skip) simp_all
  then show ?thesis by (simp add: fl_def ulp_def)
qed

lemma fl_small:
  assumes "p < 32"
  shows "fl p = of_int (roundEven (p / 2 powi (binade 4 p - 52))) * 2 powi (binade 4 p - 52)"
  using assms by (intro fl_skip) simp_all

lemmas fl_eval =
  fl_small binade.simps roundEven_def Let_def power_int_minus_divide floor_rat_numeral

text \<open>
  The double nearest to 0.7 times 20 is just below 14 and rounds to 14: the column is
  14, where the floor of the exact product is 13.
\<close>

lemma double_07:
  "isDouble (3152519739159347 / 2 ^ 52) \<and>
   \<lfloor>fl (3152519739159347 / 2 ^ 52 * of_int BOARD_COLS)\<rfloor> = 14 \<and>
   \<lfloor>(3152519739159347 / 2 ^ 52 :: rat) * of_int BOARD_COLS\<rfloor> = 13"
  by (simp add: isDouble_def BOARD_COLS_def fl_eval)

section \<open>Speed and membership\<close>

lemma speedUp_div: "speedUp ms = max 70 (ms * 96 div 100)"
proof -
  have "(of_int ms :: rat) * 0.96 = of_int (ms * 96) / of_int 100" by simp
  then have "\<lfloor>(of_int ms :: rat) * 0.96\<rfloor> = ms * 96 div 100"
    by (simp only: floor_divide_of_int_eq)
  then show ?thesis by (simp only: speedUp_def)
qed

lemma speedUp_bounds: "70 \<le> speedUp ms" "70 \<le> ms \<Longrightarrow> speedUp ms \<le> ms"
  by (simp_all add: speedUp_div)

lemma some_iff_mem: "list_ex (\<lambda>p. x p = x n \<and> y p = y n) ps \<longleftrightarrow> (n :: Point) \<in> set ps"
  by (induction ps) auto

lemma some_xy_iff_mem: "list_ex (\<lambda>p. x p = a \<and> y p = b) ps \<longleftrightarrow> \<lparr>x = a, y = b\<rparr> \<in> set ps"
  using some_iff_mem [of "\<lparr>x = a, y = b\<rparr>" ps] by simp

lemma some_eq_iff_mem: "list_ex (\<lambda>p. p = n) ps \<longleftrightarrow> n \<in> set ps"
  by (induction ps) auto

lemma same_cell_iff: "x p = x q \<and> y p = y q \<longleftrightarrow> (p :: Point) = q"
  by auto

lemmas consts_defs =
  INITIAL_SNAKE_def INITIAL_DIR_def BASE_SPEED_MS_def BOARD_COLS_def BOARD_ROWS_def

lemmas eval_defs = stepA_def stepB_def changeDir_def resetGame_def hitsWall_def
  consts_defs tailAdjust_def foodBookkeeping_def speedUp_div fl_eval

section \<open>The fields after each operation\<close>

lemma tailAdjust_fields:
  "dir (tailAdjust ns s) = dir s" "food (tailAdjust ns s) = food s"
  "running (tailAdjust ns s) = running s" "score (tailAdjust ns s) = score s"
  "speed (tailAdjust ns s) = speed s" "timers (tailAdjust ns s) = timers s"
  by (simp_all add: tailAdjust_def)

lemma tailAdjust_snake:
  "snake (tailAdjust ns s) = (if growthRef s > 0 then ns else butlast ns)"
  by (simp add: tailAdjust_def)

lemma tailAdjust_growth:
  "growthRef (tailAdjust ns s) = (if growthRef s > 0 then growthRef s - 1 else growthRef s)"
  by (simp add: tailAdjust_def)

lemma foodBookkeeping_fields:
  "snake (foodBookkeeping f s) = snake s" "dir (foodBookkeeping f s) = dir s"
  "food (foodBookkeeping f s) = f" "running (foodBookkeeping f s) = running s"
  "score (foodBookkeeping f s) = score s + 1" "speed (foodBookkeeping f s) = speedUp (speed s)"
  "timers (foodBookkeeping f s) = timers s" "growthRef (foodBookkeeping f s) = growthRef s + 1"
  by (simp_all add: foodBookkeeping_def)

lemma changeDir_fields:
  "snake (changeDir d s) = snake s" "food (changeDir d s) = food s"
  "running (changeDir d s) = running s" "score (changeDir d s) = score s"
  "speed (changeDir d s) = speed s" "timers (changeDir d s) = timers s"
  by (simp_all add: changeDir_def Let_def)

lemma changeDir_growth: "growthRef (changeDir d s) = growthRef s"
  by (simp add: changeDir_def Let_def)

lemma changeDir_opposite:
  "changeDir next s = s\<lparr>dir := (if next = opposite (dir s) then dir s else next)\<rparr>"
  by (cases "dir s"; cases "next") (simp_all add: changeDir_def Let_def)

lemma fold_changeDir: "fold changeDir ds s = s\<lparr>dir := dir (fold changeDir ds s)\<rparr>"
proof (induction ds arbitrary: s)
  case Nil
  show ?case by simp
next
  case (Cons d ds)
  have "fold changeDir (d # ds) s = fold changeDir ds (changeDir d s)" by simp
  also have "\<dots> = (changeDir d s)\<lparr>dir := dir (fold changeDir ds (changeDir d s))\<rparr>"
    by (rule Cons.IH)
  also have "\<dots> = s\<lparr>dir := dir (fold changeDir ds (changeDir d s))\<rparr>"
    by (simp add: changeDir_opposite)
  finally show ?case by simp
qed

lemma resetGame_fields:
  "snake (resetGame s) = snake s" "dir (resetGame s) = dir s" "food (resetGame s) = food s"
  "running (resetGame s) = False" "score (resetGame s) = score s"
  "speed (resetGame s) = speed s" "timers (resetGame s) = Suc (timers s)"
  by (simp_all add: resetGame_def)

lemma resetGame_growth: "growthRef (resetGame s) = growthRef s"
  by (simp add: resetGame_def)

lemma reset_record:
  "(resetGame s)\<lparr>snake := ps\<rparr> = s\<lparr>snake := ps, running := False, timers := Suc (timers s)\<rparr>"
  by (simp add: resetGame_def)

lemma tailAdjust_not_reset:
  assumes "timers u = timers s"
  shows "tailAdjust ns u \<noteq> (resetGame s)\<lparr>snake := INITIAL_SNAKE\<rparr>"
proof
  assume "tailAdjust ns u = (resetGame s)\<lparr>snake := INITIAL_SNAKE\<rparr>"
  then have "timers (tailAdjust ns u) = timers ((resetGame s)\<lparr>snake := INITIAL_SNAKE\<rparr>)"
    by simp
  with assms show False by (simp add: tailAdjust_fields resetGame_fields)
qed

section \<open>The food loop\<close>

lemma randomFood_Some:
  "randomFood occupied rs = Some f \<Longrightarrow>
     f \<notin> set occupied \<and>
     (\<exists>u \<in> set rs. \<exists>v \<in> set rs.
        f = \<lparr>x = \<lfloor>fl (u * of_int BOARD_COLS)\<rfloor>, y = \<lfloor>fl (v * of_int BOARD_ROWS)\<rfloor>\<rparr>)"
proof (induction rs rule: induct_list012)
  case (3 u v rs)
  show ?case
  proof (cases "\<lparr>x = \<lfloor>fl (u * of_int BOARD_COLS)\<rfloor>, y = \<lfloor>fl (v * of_int BOARD_ROWS)\<rfloor>\<rparr>
      \<in> set occupied")
    case True
    with "3.prems" have "randomFood occupied rs = Some f"
      by (simp add: Let_def some_xy_iff_mem)
    with "3.IH"(1) show ?thesis by auto
  next
    case False
    with "3.prems"
    have "f = \<lparr>x = \<lfloor>fl (u * of_int BOARD_COLS)\<rfloor>, y = \<lfloor>fl (v * of_int BOARD_ROWS)\<rfloor>\<rparr>"
      by (simp add: Let_def some_xy_iff_mem)
    with False show ?thesis by auto
  qed
qed simp_all

lemma randomFood_in_bounds:
  assumes "\<forall>r \<in> set rs. isDouble r \<and> 0 \<le> r \<and> r < 1" and "randomFood occupied rs = Some f"
  shows "0 \<le> x f \<and> x f < 20 \<and> 0 \<le> y f \<and> y f < 26"
proof -
  from randomFood_Some [OF assms(2)] obtain u v where
    uv: "u \<in> set rs" "v \<in> set rs"
    and f: "f = \<lparr>x = \<lfloor>fl (u * of_int BOARD_COLS)\<rfloor>, y = \<lfloor>fl (v * of_int BOARD_ROWS)\<rfloor>\<rparr>"
    by blast
  from uv assms(1) have "0 \<le> u" "u \<le> 1 - 1 / 2 ^ 53" "0 \<le> v" "v \<le> 1 - 1 / 2 ^ 53"
    using double_below_one by auto
  then show ?thesis
    using fl_product_below [of u 20] fl_product_below [of v 26] f
    by (simp add: BOARD_COLS_def BOARD_ROWS_def)
qed

text \<open>The loop returns as soon as a round of draws gives a free cell.\<close>

lemma randomFood_returns:
  "\<lparr>x = \<lfloor>fl (u * of_int BOARD_COLS)\<rfloor>, y = \<lfloor>fl (v * of_int BOARD_ROWS)\<rfloor>\<rparr> \<notin> set occupied \<Longrightarrow>
   even (length pre) \<Longrightarrow> \<exists>f. randomFood occupied (pre @ u # v # rs) = Some f"
proof (induction pre rule: induct_list012)
  case 1
  then show ?case by (simp add: Let_def some_xy_iff_mem)
next
  case (2 a)
  then show ?case by simp
next
  case (3 a b pre)
  then show ?case by (simp add: Let_def)
qed

text \<open>
  The doubles nearest to 0.3 and 0.4 give the cell \<open>(6,10)\<close>, which is free of the
  initial snake: the product of the first with 20 rounds to 6.
\<close>

lemma double_03_04:
  "isDouble (5404319552844595 / 2 ^ 54) \<and> isDouble (3602879701896397 / 2 ^ 53) \<and>
   randomFood INITIAL_SNAKE [5404319552844595 / 2 ^ 54, 3602879701896397 / 2 ^ 53]
     = Some \<lparr>x = 6, y = 10\<rparr>"
  by (simp add: isDouble_def INITIAL_SNAKE_def BOARD_COLS_def BOARD_ROWS_def fl_eval)

section \<open>A single step\<close>

text \<open>\<open>step\<close> with the tests of the source read as membership in the snake.\<close>

lemma stepA_unfold:
  assumes "snake s = h # t"
  shows "stepA rs s =
    (if hitsWall (moveHead h (dir s)) \<or>
        moveHead h (dir s) \<in> set (if moveHead h (dir s) \<noteq> food s \<and> growthRef s = 0
                                    then butlast (snake s) else snake s)
     then Inr ((resetGame s)\<lparr>snake := INITIAL_SNAKE\<rparr>)
     else if moveHead h (dir s) = food s
       then (case randomFood (moveHead h (dir s) # snake s) rs of
               None \<Rightarrow> Inl NoReturn
             | Some newFood \<Rightarrow>
                 Inr (tailAdjust (moveHead h (dir s) # snake s) (foodBookkeeping newFood s)))
       else Inr (tailAdjust (moveHead h (dir s) # snake s) s))"
  using assms
  by (simp add: stepA_def Let_def some_eq_iff_mem same_cell_iff del: set_simps
      cong: option.case_cong)

lemma stepB_unfold:
  assumes "snake s = h # t"
  shows "stepB cf rs s =
    (if hitsWall (moveHead h (dir s)) \<or> moveHead h (dir s) \<in> set (snake s)
     then Inr ((resetGame s)\<lparr>snake := INITIAL_SNAKE\<rparr>)
     else if moveHead h (dir s) = cf
       then (case randomFood (moveHead h (dir s) # snake s) rs of
               None \<Rightarrow> Inl NoReturn
             | Some newFood \<Rightarrow>
                 Inr (s\<lparr>snake := moveHead h (dir s) # snake s, score := score s + 1,
                        food := newFood, speed := speedUp (speed s)\<rparr>))
       else Inr (s\<lparr>snake := butlast (moveHead h (dir s) # snake s)\<rparr>))"
  using assms
  by (simp add: stepB_def Let_def some_eq_iff_mem same_cell_iff del: set_simps
      cong: option.case_cong)

lemma stepA_Inr_nonempty: "stepA rs s = Inr s' \<Longrightarrow> \<exists>h t. snake s = h # t"
  by (cases "snake s") (simp_all add: stepA_def)

lemma stepB_Inr_nonempty: "stepB cf rs s = Inr s' \<Longrightarrow> \<exists>h t. snake s = h # t"
  by (cases "snake s") (simp_all add: stepB_def)

text \<open>What a returning step of variant A does, by the timer it starts or not.\<close>

lemma stepA_result:
  assumes "stepA rs s = Inr s'"
  shows "(s' = (resetGame s)\<lparr>snake := INITIAL_SNAKE\<rparr>) \<or>
         (moveHead (hd (snake s)) (dir s) = food s \<and>
            (\<exists>f. randomFood (moveHead (hd (snake s)) (dir s) # snake s) rs = Some f \<and>
                 s' = tailAdjust (moveHead (hd (snake s)) (dir s) # snake s)
                        (foodBookkeeping f s))) \<or>
         (moveHead (hd (snake s)) (dir s) \<noteq> food s \<and>
            s' = tailAdjust (moveHead (hd (snake s)) (dir s) # snake s) s)"
proof -
  from assms obtain h t where ht: "snake s = h # t" using stepA_Inr_nonempty by blast
  with assms show ?thesis
    by (auto simp add: stepA_unfold simp del: set_simps split: if_splits option.splits)
qed

lemma stepB_result:
  assumes "stepB cf rs s = Inr s'"
  shows "(s' = (resetGame s)\<lparr>snake := INITIAL_SNAKE\<rparr>) \<or>
         (moveHead (hd (snake s)) (dir s) = cf \<and>
            (\<exists>f. randomFood (moveHead (hd (snake s)) (dir s) # snake s) rs = Some f \<and>
                 s' = s\<lparr>snake := moveHead (hd (snake s)) (dir s) # snake s,
                        score := score s + 1, food := f, speed := speedUp (speed s)\<rparr>)) \<or>
         (moveHead (hd (snake s)) (dir s) \<noteq> cf \<and>
            s' = s\<lparr>snake := moveHead (hd (snake s)) (dir s) # butlast (snake s)\<rparr>)"
proof -
  from assms obtain h t where ht: "snake s = h # t" using stepB_Inr_nonempty by blast
  with assms show ?thesis
    by (auto simp add: stepB_unfold simp del: set_simps split: if_splits option.splits)
qed

lemma stepA_resets_iff:
  assumes "snake s = h # t"
  shows "stepA rs s = Inr ((resetGame s)\<lparr>snake := INITIAL_SNAKE\<rparr>) \<longleftrightarrow>
         hitsWall (moveHead h (dir s)) \<or>
         moveHead h (dir s) \<in> set (if moveHead h (dir s) \<noteq> food s \<and> growthRef s = 0
                                     then butlast (snake s) else snake s)"
  using assms tailAdjust_not_reset [of s s] tailAdjust_not_reset [of "foodBookkeeping f s" s for f]
  by (auto simp add: stepA_unfold foodBookkeeping_fields simp del: set_simps
      split: option.splits)

lemma stepA_no_reset_fields:
  assumes ht: "snake s = h # t"
    and nc: "\<not> (hitsWall (moveHead h (dir s)) \<or>
        moveHead h (dir s) \<in> set (if moveHead h (dir s) \<noteq> food s \<and> growthRef s = 0
                                    then butlast (snake s) else snake s))"
    and st: "stepA rs s = Inr s'"
  shows "timers s' = timers s \<and> running s' = running s \<and> dir s' = dir s"
proof (cases "moveHead h (dir s) = food s")
  case True
  with ht nc st obtain f where
    "s' = tailAdjust (moveHead h (dir s) # snake s) (foodBookkeeping f s)"
    by (auto simp add: stepA_unfold simp del: set_simps split: option.splits)
  then show ?thesis by (simp add: tailAdjust_fields foodBookkeeping_fields)
next
  case False
  with ht nc st have "s' = tailAdjust (moveHead h (dir s) # snake s) s"
    by (simp add: stepA_unfold del: set_simps)
  then show ?thesis by (simp add: tailAdjust_fields)
qed

lemma stepB_no_reset_fields:
  assumes ht: "snake s = h # t"
    and nc: "\<not> (hitsWall (moveHead h (dir s)) \<or> moveHead h (dir s) \<in> set (snake s))"
    and st: "stepB cf rs s = Inr s'"
  shows "timers s' = timers s \<and> running s' = running s \<and> dir s' = dir s"
proof (cases "moveHead h (dir s) = cf")
  case True
  with ht nc st obtain f where
    "s' = s\<lparr>snake := moveHead h (dir s) # snake s, score := score s + 1,
            food := f, speed := speedUp (speed s)\<rparr>"
    by (auto simp add: stepB_unfold simp del: set_simps split: option.splits)
  then show ?thesis by simp
next
  case False
  with ht nc st have "s' = s\<lparr>snake := butlast (moveHead h (dir s) # snake s)\<rparr>"
    by (simp add: stepB_unfold del: set_simps)
  then show ?thesis by simp
qed

lemma stepB_resets_iff:
  assumes ht: "snake s = h # t"
  shows "stepB cf rs s = Inr ((resetGame s)\<lparr>snake := INITIAL_SNAKE\<rparr>) \<longleftrightarrow>
         hitsWall (moveHead h (dir s)) \<or> moveHead h (dir s) \<in> set (snake s)"
proof (cases "hitsWall (moveHead h (dir s)) \<or> moveHead h (dir s) \<in> set (snake s)")
  case True
  then show ?thesis using ht by (simp add: stepB_unfold del: set_simps)
next
  case False
  have "stepB cf rs s \<noteq> Inr ((resetGame s)\<lparr>snake := INITIAL_SNAKE\<rparr>)"
  proof
    assume eq: "stepB cf rs s = Inr ((resetGame s)\<lparr>snake := INITIAL_SNAKE\<rparr>)"
    from stepB_no_reset_fields [OF ht False eq]
    show False by (simp add: resetGame_fields)
  qed
  with False show ?thesis by simp
qed

lemma stepA_head:
  assumes "stepA rs s = Inr s'" "timers s' = timers s"
  shows "hd (snake s') = moveHead (hd (snake s)) (dir s)"
proof -
  from assms(1) have "snake s \<noteq> []" using stepA_Inr_nonempty by fastforce
  with stepA_result [OF assms(1)] assms(2) show ?thesis
    by (auto simp: tailAdjust_snake tailAdjust_fields foodBookkeeping_fields resetGame_fields)
qed

lemma stepB_head:
  assumes "stepB cf rs s = Inr s'" "timers s' = timers s"
  shows "hd (snake s') = moveHead (hd (snake s)) (dir s)"
proof -
  from assms(1) have "snake s \<noteq> []" using stepB_Inr_nonempty by fastforce
  with stepB_result [OF assms(1)] assms(2) show ?thesis
    by (auto simp: resetGame_fields)
qed

lemma stepA_speed:
  assumes "stepA rs s = Inr s'"
  shows "speed s' = speed s \<or> speed s' = speedUp (speed s)"
  using stepA_result [OF assms]
  by (auto simp: tailAdjust_fields foodBookkeeping_fields resetGame_fields)

lemma stepB_speed:
  assumes "stepB cf rs s = Inr s'"
  shows "speed s' = speed s \<or> speed s' = speedUp (speed s)"
  using stepB_result [OF assms] by (auto simp: resetGame_fields)

lemma stepsA_speed:
  "70 \<le> speed s \<Longrightarrow> stepsA rss s = Inr s' \<Longrightarrow> 70 \<le> speed s' \<and> speed s' \<le> speed s"
proof (induction rss arbitrary: s)
  case Nil
  then show ?case by simp
next
  case (Cons rs rss)
  from Cons.prems(2) obtain s1 where s1: "stepA rs s = Inr s1" and rest: "stepsA rss s1 = Inr s'"
    by (auto split: sum.splits)
  from stepA_speed [OF s1] Cons.prems(1) have b: "70 \<le> speed s1 \<and> speed s1 \<le> speed s"
    using speedUp_bounds [of "speed s"] by auto
  with Cons.IH [of s1] rest show ?case by auto
qed

lemma stepsB_speed:
  "70 \<le> speed s \<Longrightarrow> stepsB rss s = Inr s' \<Longrightarrow> 70 \<le> speed s' \<and> speed s' \<le> speed s"
proof (induction rss arbitrary: s)
  case Nil
  then show ?case by simp
next
  case (Cons a rss)
  obtain cf rs where a: "a = (cf, rs)" by (cases a)
  from Cons.prems(2) a obtain s1 where s1: "stepB cf rs s = Inr s1"
    and rest: "stepsB rss s1 = Inr s'"
    by (auto split: sum.splits)
  from stepB_speed [OF s1] Cons.prems(1) have b: "70 \<le> speed s1 \<and> speed s1 \<le> speed s"
    using speedUp_bounds [of "speed s"] by auto
  with Cons.IH [of s1] rest show ?case by auto
qed

lemma stepA_growth:
  assumes g: "growthRef s = 0" and st: "stepA rs s = Inr s'"
  shows "growthRef s' = 0"
  using stepA_result [OF st] g
  by (auto simp: tailAdjust_growth foodBookkeeping_fields resetGame_growth)

section \<open>Invariants of the reachable states\<close>

lemma initial_snake_good:
  "INITIAL_SNAKE \<noteq> [] \<and> distinct INITIAL_SNAKE \<and> (\<forall>c \<in> set INITIAL_SNAKE. \<not> hitsWall c)"
  by (simp add: INITIAL_SNAKE_def hitsWall_def BOARD_COLS_def BOARD_ROWS_def)

text \<open>The snake after a move: the new head in front of the old snake, or of the old snake without its tail.\<close>

lemma good_after_move:
  assumes "ps \<noteq> []" "distinct ps" "\<forall>c \<in> set ps. \<not> hitsWall c" "\<not> hitsWall n"
    and "qs = n # ps \<and> n \<notin> set ps \<or> qs = n # butlast ps \<and> n \<notin> set (butlast ps)"
  shows "qs \<noteq> [] \<and> distinct qs \<and> (\<forall>c \<in> set qs. \<not> hitsWall c)"
proof -
  have "set (butlast ps) \<subseteq> set ps" by (auto dest: in_set_butlastD)
  with assms show ?thesis by (auto simp: distinct_butlast)
qed

lemma stepA_good:
  assumes good: "snake s \<noteq> []" "distinct (snake s)" "\<forall>c \<in> set (snake s). \<not> hitsWall c"
    and step: "stepA rs s = Inr s'"
  shows "snake s' \<noteq> [] \<and> distinct (snake s') \<and> (\<forall>c \<in> set (snake s'). \<not> hitsWall c)"
proof -
  from good(1) obtain h t where ht: "snake s = h # t" by (cases "snake s") auto
  let ?n = "moveHead h (dir s)"
  let ?body = "if ?n \<noteq> food s \<and> growthRef s = 0 then butlast (snake s) else snake s"
  show ?thesis
  proof (cases "hitsWall ?n \<or> ?n \<in> set ?body")
    case True
    with step ht have "s' = (resetGame s)\<lparr>snake := INITIAL_SNAKE\<rparr>"
      by (simp add: stepA_unfold del: set_simps)
    then show ?thesis using initial_snake_good by simp
  next
    case False
    then have nw: "\<not> hitsWall ?n" and nb: "?n \<notin> set ?body" by simp_all
    have "snake s' = ?n # snake s \<and> ?n \<notin> set (snake s) \<or>
          snake s' = ?n # butlast (snake s) \<and> ?n \<notin> set (butlast (snake s))"
    proof (cases "?n = food s")
      case True
      with nb have nin: "?n \<notin> set (snake s)" by simp
      from step ht False True obtain f where
        "s' = tailAdjust (?n # snake s) (foodBookkeeping f s)"
        by (auto simp add: stepA_unfold simp del: set_simps split: option.splits)
      then have "snake s' = ?n # snake s \<or> snake s' = ?n # butlast (snake s)"
        using good(1) by (simp add: tailAdjust_snake)
      with nin show ?thesis by (auto dest: in_set_butlastD)
    next
      case nf: False
      with step ht False have s': "s' = tailAdjust (?n # snake s) s"
        by (simp add: stepA_unfold del: set_simps)
      show ?thesis
      proof (cases "growthRef s = 0")
        case True
        with nf nb s' good(1) show ?thesis by (simp add: tailAdjust_snake)
      next
        case False
        with nf nb have nin: "?n \<notin> set (snake s)" by simp
        from s' good(1) have "snake s' = ?n # snake s \<or> snake s' = ?n # butlast (snake s)"
          by (simp add: tailAdjust_snake)
        with nin show ?thesis by (auto dest: in_set_butlastD)
      qed
    qed
    with good nw show ?thesis
      using good_after_move [of "snake s" ?n "snake s'"] by blast
  qed
qed

lemma stepB_good:
  assumes good: "snake s \<noteq> []" "distinct (snake s)" "\<forall>c \<in> set (snake s). \<not> hitsWall c"
    and step: "stepB cf rs s = Inr s'"
  shows "snake s' \<noteq> [] \<and> distinct (snake s') \<and> (\<forall>c \<in> set (snake s'). \<not> hitsWall c)"
proof -
  from good(1) obtain h t where ht: "snake s = h # t" by (cases "snake s") auto
  let ?n = "moveHead h (dir s)"
  show ?thesis
  proof (cases "hitsWall ?n \<or> ?n \<in> set (snake s)")
    case True
    with step ht have "s' = (resetGame s)\<lparr>snake := INITIAL_SNAKE\<rparr>"
      by (simp add: stepB_unfold del: set_simps)
    then show ?thesis using initial_snake_good by simp
  next
    case False
    then have nw: "\<not> hitsWall ?n" and nin: "?n \<notin> set (snake s)" by simp_all
    from step ht False good(1) have "snake s' = ?n # snake s \<or> snake s' = ?n # butlast (snake s)"
      by (auto simp add: stepB_unfold simp del: set_simps split: option.splits if_splits)
    with nin have "snake s' = ?n # snake s \<and> ?n \<notin> set (snake s) \<or>
          snake s' = ?n # butlast (snake s) \<and> ?n \<notin> set (butlast (snake s))"
      by (auto dest: in_set_butlastD)
    with good nw show ?thesis
      using good_after_move [of "snake s" ?n "snake s'"] by blast
  qed
qed

lemma fireA_good:
  assumes "snake s \<noteq> []" "distinct (snake s)" "\<forall>c \<in> set (snake s). \<not> hitsWall c"
    and "fireA e s = Inr s'"
  shows "snake s' \<noteq> [] \<and> distinct (snake s') \<and> (\<forall>c \<in> set (snake s'). \<not> hitsWall c)"
proof (cases e)
  case (Tick rs)
  with assms show ?thesis using stepA_good [of s rs s'] by (auto split: if_splits)
next
  case (ChangeDir d)
  with assms show ?thesis by (auto simp: changeDir_fields)
next
  case TogglePause
  with assms show ?thesis by auto
next
  case Restart
  with assms show ?thesis by (auto simp: resetGame_fields)
next
  case (ResetTimeout rs)
  with assms show ?thesis using initial_snake_good
    by (auto simp: resetTimeoutA_def split: if_splits option.splits)
qed

lemma fireB_good:
  assumes "snake s \<noteq> []" "distinct (snake s)" "\<forall>c \<in> set (snake s). \<not> hitsWall c"
    and "fireB cf e s = Inr s'"
  shows "snake s' \<noteq> [] \<and> distinct (snake s') \<and> (\<forall>c \<in> set (snake s'). \<not> hitsWall c)"
proof (cases e)
  case (Tick rs)
  with assms show ?thesis using stepB_good [of s cf rs s'] by (auto split: if_splits)
next
  case (ChangeDir d)
  with assms show ?thesis by (auto simp: changeDir_fields)
next
  case TogglePause
  with assms show ?thesis by auto
next
  case Restart
  with assms show ?thesis by (auto simp: resetGame_fields)
next
  case (ResetTimeout rs)
  with assms show ?thesis using initial_snake_good
    by (auto simp: resetTimeoutB_def split: if_splits option.splits)
qed

lemma reachableA_good:
  "reachableA s \<Longrightarrow>
     snake s \<noteq> [] \<and> distinct (snake s) \<and> (\<forall>c \<in> set (snake s). \<not> hitsWall c)"
proof (induction rule: reachableA.induct)
  case (start rs s)
  then show ?case using initial_snake_good
    by (auto simp: initA_def split: option.splits)
next
  case (event s e s')
  then show ?case using fireA_good [of s e s'] by blast
qed

lemma reachableB_good:
  "reachableB s \<Longrightarrow>
     snake s \<noteq> [] \<and> distinct (snake s) \<and> (\<forall>c \<in> set (snake s). \<not> hitsWall c)"
proof (induction rule: reachableB.induct)
  case (startB rs s)
  then show ?case using initial_snake_good
    by (auto simp: initB_def split: option.splits)
next
  case (eventB s cf e s')
  then show ?case using fireB_good [of s cf e s'] by blast
qed

lemma not_hitsWall_iff: "\<not> hitsWall c \<longleftrightarrow> 0 \<le> x c \<and> x c < 20 \<and> 0 \<le> y c \<and> y c < 26"
  by (auto simp: hitsWall_def BOARD_COLS_def BOARD_ROWS_def)

lemma reachableA_growth: "reachableA s \<Longrightarrow> growthRef s = 0"
proof (induction rule: reachableA.induct)
  case (start rs s)
  then show ?case by (auto simp: initA_def split: option.splits)
next
  case (event s e s')
  show ?case
  proof (cases e)
    case (Tick rs)
    from event.hyps(1) obtain h t where ht: "snake s = h # t"
      using reachableA_good [of s] by (cases "snake s") auto
    from Tick event.hyps(2) event.IH ht show ?thesis
      by (auto simp add: stepA_unfold tailAdjust_growth foodBookkeeping_fields resetGame_growth
          simp del: set_simps split: if_splits option.splits)
  next
    case (ChangeDir d)
    with event show ?thesis by (auto simp: changeDir_growth)
  next
    case TogglePause
    with event show ?thesis by auto
  next
    case Restart
    with event show ?thesis by (auto simp: resetGame_growth)
  next
    case (ResetTimeout rs)
    with event show ?thesis
      by (auto simp: resetTimeoutA_def split: if_splits option.splits)
  qed
qed

lemma reachableA_speed: "reachableA s \<Longrightarrow> 70 \<le> speed s \<and> speed s \<le> 140"
proof (induction rule: reachableA.induct)
  case (start rs s)
  then show ?case by (auto simp: initA_def BASE_SPEED_MS_def split: option.splits)
next
  case (event s e s')
  show ?case
  proof (cases e)
    case (Tick rs)
    with event.hyps(2) have "s' = s \<or> stepA rs s = Inr s'" by (auto split: if_splits)
    with event.IH show ?thesis
      using stepA_speed [of rs s s'] speedUp_bounds [of "speed s"] by auto
  next
    case (ChangeDir d)
    with event show ?thesis by (auto simp: changeDir_fields)
  next
    case TogglePause
    with event show ?thesis by auto
  next
    case Restart
    with event show ?thesis by (auto simp: resetGame_fields)
  next
    case (ResetTimeout rs)
    with event show ?thesis
      by (auto simp: resetTimeoutA_def BASE_SPEED_MS_def split: if_splits option.splits)
  qed
qed

lemma reachableB_speed: "reachableB s \<Longrightarrow> 70 \<le> speed s \<and> speed s \<le> 140"
proof (induction rule: reachableB.induct)
  case (startB rs s)
  then show ?case by (auto simp: initB_def BASE_SPEED_MS_def split: option.splits)
next
  case (eventB s cf e s')
  show ?case
  proof (cases e)
    case (Tick rs)
    with eventB.hyps(2) have "s' = s \<or> stepB cf rs s = Inr s'" by (auto split: if_splits)
    with eventB.IH show ?thesis
      using stepB_speed [of cf rs s s'] speedUp_bounds [of "speed s"] by auto
  next
    case (ChangeDir d)
    with eventB show ?thesis by (auto simp: changeDir_fields)
  next
    case TogglePause
    with eventB show ?thesis by auto
  next
    case Restart
    with eventB show ?thesis by (auto simp: resetGame_fields)
  next
    case (ResetTimeout rs)
    with eventB show ?thesis
      by (auto simp: resetTimeoutB_def BASE_SPEED_MS_def split: if_splits option.splits)
  qed
qed

text \<open>The speeds of the reachable states of variant A.\<close>

lemma speedUp_ladder: "ms \<in> speedLadder \<Longrightarrow> speedUp ms \<in> speedLadder"
  unfolding speedLadder_def by (auto simp: speedUp_div)

lemma reachableA_speed_ladder: "reachableA s \<Longrightarrow> speed s \<in> speedLadder"
proof (induction rule: reachableA.induct)
  case (start rs s)
  then show ?case
    by (auto simp: initA_def BASE_SPEED_MS_def speedLadder_def split: option.splits)
next
  case (event s e s')
  show ?case
  proof (cases e)
    case (Tick rs)
    with event.hyps(2) have "s' = s \<or> stepA rs s = Inr s'" by (auto split: if_splits)
    with event.IH show ?thesis
      using stepA_speed [of rs s s'] speedUp_ladder [of "speed s"] by auto
  next
    case (ChangeDir d)
    with event show ?thesis by (auto simp: changeDir_fields)
  next
    case TogglePause
    with event show ?thesis by auto
  next
    case Restart
    with event show ?thesis by (auto simp: resetGame_fields)
  next
    case (ResetTimeout rs)
    with event show ?thesis
      by (auto simp: resetTimeoutA_def BASE_SPEED_MS_def speedLadder_def
          split: if_splits option.splits)
  qed
qed

lemma speedLadder_off_integer:
  "ms \<in> speedLadder \<Longrightarrow> 8 \<le> (ms * 96) mod 100 \<and> (ms * 96) mod 100 \<le> 92"
  unfolding speedLadder_def by auto

text \<open>
  The double product \<open>ms * 0.96\<close> has the floor of the exact product at every speed a
  game can have; \<open>fl 0.96\<close> is the double the literal \<open>0.96\<close> denotes.
\<close>

lemma double_096: "fl 0.96 = 8646911284551352 / 2 ^ 53"
  by (simp add: fl_skip [of "- 1"] binade.simps roundEven_def Let_def power_int_minus_divide
      floor_rat_numeral)

lemma speedUp_double:
  "ms \<in> speedLadder \<Longrightarrow> max 70 \<lfloor>fl (of_int ms * fl 0.96)\<rfloor> = speedUp ms"
  unfolding speedLadder_def
  by (auto simp add: double_096 speedUp_div fl_skip [of 7] binade.simps roundEven_def Let_def
      power_int_minus_divide floor_rat_numeral)


text \<open>
  What a step of variant A returns in a reachable state, as equations: a move without
  food, and a move onto the food once \<open>randomFood\<close> has returned the new food.
\<close>

lemma stepA_moves:
  assumes "reachableA s"
    and "\<not> hitsWall (moveHead (hd (snake s)) (dir s))"
    and "moveHead (hd (snake s)) (dir s) \<noteq> food s"
    and "moveHead (hd (snake s)) (dir s) \<notin> set (butlast (snake s))"
  shows "stepA rs s = Inr (s\<lparr>snake := moveHead (hd (snake s)) (dir s) # butlast (snake s)\<rparr>)"
proof -
  from assms(1) have g: "growthRef s = 0" by (rule reachableA_growth)
  from assms(1) obtain h t where ht: "snake s = h # t"
    using reachableA_good [of s] by (cases "snake s") auto
  from assms(2-4) g ht show ?thesis
    by (simp add: stepA_unfold [OF ht] tailAdjust_def del: set_simps)
qed

lemma stepA_eats:
  assumes "reachableA s"
    and "\<not> hitsWall (moveHead (hd (snake s)) (dir s))"
    and "moveHead (hd (snake s)) (dir s) = food s"
    and "food s \<notin> set (snake s)"
    and "randomFood (food s # snake s) rs = Some f"
  shows "stepA rs s =
    Inr (s\<lparr>snake := food s # snake s, score := score s + 1, food := f,
           speed := max 70 \<lfloor>of_int (speed s) * (0.96 :: rat)\<rfloor>, growthRef := 0\<rparr>)"
proof -
  from assms(1) have g: "growthRef s = 0" by (rule reachableA_growth)
  from assms(1) obtain h t where ht: "snake s = h # t"
    using reachableA_good [of s] by (cases "snake s") auto
  from assms(2-5) g ht show ?thesis
    by (simp add: stepA_unfold [OF ht] tailAdjust_def foodBookkeeping_def speedUp_def
        del: set_simps)
qed

text \<open>
  The same in variant B, for the food in the closure of \<open>step\<close> in place of the current
  food.
\<close>

lemma stepB_moves:
  assumes "snake s \<noteq> []"
    and "\<not> hitsWall (moveHead (hd (snake s)) (dir s))"
    and "moveHead (hd (snake s)) (dir s) \<noteq> closureFood"
    and "moveHead (hd (snake s)) (dir s) \<notin> set (snake s)"
  shows "stepB closureFood rs s =
    Inr (s\<lparr>snake := moveHead (hd (snake s)) (dir s) # butlast (snake s)\<rparr>)"
proof -
  from assms(1) obtain h t where ht: "snake s = h # t" by (cases "snake s") auto
  from assms(2-4) ht show ?thesis
    by (simp add: stepB_unfold [OF ht] del: set_simps)
qed

text \<open>Every state of a run with the interval's closure is a reachable state of variant B.\<close>

lemma fireLoopB_reachable:
  assumes "reachableB s" "fireLoopB e (closureFood, s) = Inr (closureFood', s')"
  shows "reachableB s'"
proof -
  from assms(2) have "fireB closureFood e s = Inr s'" by (auto split: sum.splits)
  with assms(1) show ?thesis by (rule reachableB.eventB)
qed

section \<open>The scenario states\<close>

lemma scenarioA_reachable: "reachableA scenarioA"
proof -
  have "initA [5/16, 13/32] = Inr scenarioA"
    by (simp add: initA_def scenarioA_def consts_defs fl_eval)
  then show ?thesis by (rule reachableA.start)
qed

lemma scenarioB_reachable: "reachableB scenarioB"
proof -
  have "initB [5/16, 13/32] = Inr scenarioB"
    by (simp add: initB_def scenarioB_def consts_defs fl_eval)
  then show ?thesis by (rule reachableB.startB)
qed

lemma initA_scenario: "initA [5/16, 13/32] = Inr scenarioA"
  by (simp add: initA_def scenarioA_def consts_defs fl_eval)

lemma initB_scenario: "initB [5/16, 13/32] = Inr scenarioB"
  by (simp add: initB_def scenarioB_def consts_defs fl_eval)

lemma stepA_scenario: "stepA [1/2, 1/2] scenarioA = Inr fedA"
  by (simp add: eval_defs scenarioA_def fedA_def)

lemma stepB_scenario: "stepB \<lparr>x = 6, y = 10\<rparr> [1/2, 1/2] scenarioB = Inr fedB"
  by (simp add: eval_defs scenarioB_def fedB_def)

lemma resetTimeoutA_paused: "resetTimeoutA [5/16, 13/32] pausedA = Inr scenarioA"
  by (simp add: resetTimeoutA_def scenarioA_def pausedA_def consts_defs fl_eval)

lemma resetTimeoutB_paused: "resetTimeoutB [5/16, 13/32] pausedB = Inr scenarioB"
  by (simp add: resetTimeoutB_def scenarioB_def pausedB_def consts_defs fl_eval)

lemma chaseB_trace:
  "runB [(\<lparr>x = 6, y = 10\<rparr>, Tick [1/2, 1/2]), (\<lparr>x = 10, y = 13\<rparr>, ChangeDir DOWN),
         (\<lparr>x = 10, y = 13\<rparr>, Tick []), (\<lparr>x = 10, y = 13\<rparr>, ChangeDir LEFT),
         (\<lparr>x = 10, y = 13\<rparr>, Tick []), (\<lparr>x = 10, y = 13\<rparr>, ChangeDir UP)] scenarioB
     = Inr chaseB"
  by (simp add: eval_defs scenarioB_def chaseB_def)

lemma chaseA_trace:
  "runA [Tick [1/2, 1/2], ChangeDir DOWN, Tick [], ChangeDir LEFT, Tick [], ChangeDir UP]
     scenarioA = Inr chaseA"
  by (simp add: eval_defs scenarioA_def chaseA_def)


lemma stepB_chase:
  "stepB \<lparr>x = 10, y = 13\<rparr> [] chaseB =
     Inr (chaseB\<lparr>snake := INITIAL_SNAKE, running := False, timers := 1\<rparr>)"
  by (simp add: eval_defs chaseB_def)

lemma stepA_chase:
  "stepA [] chaseA =
     Inr (chaseA\<lparr>snake := [\<lparr>x = 5, y = 10\<rparr>, \<lparr>x = 5, y = 11\<rparr>, \<lparr>x = 6, y = 11\<rparr>, \<lparr>x = 6, y = 10\<rparr>]\<rparr>)"
  by (simp add: eval_defs chaseA_def)

text \<open>
  A game of variant B that dies before it eats. The first food is at \<open>(10,13)\<close>; the
  snake turns UP and LEFT and runs into the left wall; the reset timer draws the new food
  at \<open>(6,10)\<close> and sets the speed to 140, which it already is, so the interval is not
  restarted and the closure of its \<open>step\<close> still holds \<open>(10,13)\<close>. The hooks are those
  of the eating scenario. The next tick moves the head onto the food and does not eat.
\<close>

lemma staleB_start: "initLoopB [1/2, 1/2] = Inr (\<lparr>x = 10, y = 13\<rparr>, freshB)"
  by (simp add: initLoopB_def initB_def freshB_def consts_defs fl_eval)

lemma staleB_trace:
  "runLoopB [ChangeDir UP, Tick [], ChangeDir LEFT, Tick [], Tick [], Tick [], Tick [], Tick [],
             Tick [], ResetTimeout [5/16, 13/32]] (\<lparr>x = 10, y = 13\<rparr>, freshB)
     = Inr (\<lparr>x = 10, y = 13\<rparr>, scenarioB)"
  by (simp add: eval_defs effectB_def resetTimeoutB_def freshB_def scenarioB_def)

lemma staleB_tick:
  "fireLoopB (Tick [1/2, 1/2]) (\<lparr>x = 10, y = 13\<rparr>, scenarioB) = Inr (\<lparr>x = 10, y = 13\<rparr>, missedB)"
  by (simp add: eval_defs effectB_def scenarioB_def missedB_def)

text \<open>The same game in variant A: the step reads the current food and eats.\<close>

lemma freshA_start: "initA [1/2, 1/2] = Inr freshA"
  by (simp add: initA_def freshA_def consts_defs fl_eval)

lemma freshA_trace:
  "runA [ChangeDir UP, Tick [], ChangeDir LEFT, Tick [], Tick [], Tick [], Tick [], Tick [],
         Tick [], ResetTimeout [5/16, 13/32], Tick [1/2, 1/2]] freshA = Inr fedA"
  by (simp add: eval_defs resetTimeoutA_def freshA_def fedA_def)

section \<open>The claims\<close>

text \<open>
  Claim C1. In every state reachable from the first render by ticks, direction requests,
  the two buttons and reset timers, a step that returns leaves a snake whose cells are all
  on the board (\<open>0 \<le> x < 20\<close>, \<open>0 \<le> y < 26\<close>) and pairwise different. This holds for the
  steps that reset as well (their snake is \<open>INITIAL_SNAKE\<close>), and in both variants; in
  variant B for whatever food the closure of \<open>step\<close> holds.
\<close>

theorem snake_in_bounds_and_distinct:
  "(reachableA s \<longrightarrow> stepA rs s = Inr s' \<longrightarrow>
      (\<forall>c \<in> set (snake s'). 0 \<le> x c \<and> x c < 20 \<and> 0 \<le> y c \<and> y c < 26) \<and>
      distinct (snake s')) \<and>
   (reachableB t \<longrightarrow> stepB closureFood rs t = Inr t' \<longrightarrow>
      (\<forall>c \<in> set (snake t'). 0 \<le> x c \<and> x c < 20 \<and> 0 \<le> y c \<and> y c < 26) \<and>
      distinct (snake t'))"
proof (intro conjI impI)
  assume "reachableA s" "stepA rs s = Inr s'"
  then have "distinct (snake s') \<and> (\<forall>c \<in> set (snake s'). \<not> hitsWall c)"
    using reachableA_good [of s] stepA_good [of s rs s'] by blast
  then show "\<forall>c \<in> set (snake s'). 0 \<le> x c \<and> x c < 20 \<and> 0 \<le> y c \<and> y c < 26"
    and "distinct (snake s')"
    by (simp_all add: not_hitsWall_iff)
next
  assume "reachableB t" "stepB closureFood rs t = Inr t'"
  then have "distinct (snake t') \<and> (\<forall>c \<in> set (snake t'). \<not> hitsWall c)"
    using reachableB_good [of t] stepB_good [of t closureFood rs t'] by blast
  then show "\<forall>c \<in> set (snake t'). 0 \<le> x c \<and> x c < 20 \<and> 0 \<le> y c \<and> y c < 26"
    and "distinct (snake t')"
    by (simp_all add: not_hitsWall_iff)
qed

text \<open>The step of the eating scenario, in both variants.\<close>

theorem snake_in_bounds_and_distinct_witness:
  "reachableA scenarioA \<and> stepA [1/2, 1/2] scenarioA = Inr fedA \<and>
   list_all (\<lambda>c. 0 \<le> x c \<and> x c < 20 \<and> 0 \<le> y c \<and> y c < 26) (snake fedA) \<and>
   distinct (snake fedA) \<and>
   reachableB scenarioB \<and> stepB \<lparr>x = 6, y = 10\<rparr> [1/2, 1/2] scenarioB = Inr fedB \<and>
   list_all (\<lambda>c. 0 \<le> x c \<and> x c < 20 \<and> 0 \<le> y c \<and> y c < 26) (snake fedB) \<and>
   distinct (snake fedB)"
  using snake_in_bounds_and_distinct
    [of scenarioA "[1/2, 1/2]" fedA scenarioB "\<lparr>x = 6, y = 10\<rparr>" fedB]
    scenarioA_reachable scenarioB_reachable stepA_scenario stepB_scenario
  by (simp add: list_all_iff)

text \<open>
  Claim C2, as amended. When the next head is on the board, the step resets (its result
  is the state with \<open>INITIAL_SNAKE\<close>, \<open>running\<close> false and one more reset timer, nothing
  else changed and no move made) exactly when the next head is a cell of the body tested:
  in variant A the snake without its last cell when the food is not eaten and
  \<open>growthRef\<close> is 0, and the whole snake otherwise; in variant B, which has no growth
  counter, always the whole snake.
\<close>

theorem self_collision_body:
  "(snake a \<noteq> [] \<longrightarrow> \<not> hitsWall (moveHead (hd (snake a)) (dir a)) \<longrightarrow>
      (stepA rs a = Inr (a\<lparr>snake := INITIAL_SNAKE, running := False, timers := Suc (timers a)\<rparr>)
       \<longleftrightarrow> moveHead (hd (snake a)) (dir a) \<in>
             set (if moveHead (hd (snake a)) (dir a) \<noteq> food a \<and> growthRef a = 0
                  then butlast (snake a) else snake a))) \<and>
   (snake b \<noteq> [] \<longrightarrow> \<not> hitsWall (moveHead (hd (snake b)) (dir b)) \<longrightarrow>
      (stepB closureFood rs b =
         Inr (b\<lparr>snake := INITIAL_SNAKE, running := False, timers := Suc (timers b)\<rparr>)
       \<longleftrightarrow> moveHead (hd (snake b)) (dir b) \<in> set (snake b)))"
proof (intro conjI impI)
  assume ne: "snake a \<noteq> []" and nw: "\<not> hitsWall (moveHead (hd (snake a)) (dir a))"
  from ne obtain h t where ht: "snake a = h # t" by (cases "snake a") auto
  from stepA_resets_iff [OF ht, of rs] nw ht
  show "stepA rs a = Inr (a\<lparr>snake := INITIAL_SNAKE, running := False, timers := Suc (timers a)\<rparr>)
       \<longleftrightarrow> moveHead (hd (snake a)) (dir a) \<in>
             set (if moveHead (hd (snake a)) (dir a) \<noteq> food a \<and> growthRef a = 0
                  then butlast (snake a) else snake a)"
    by (simp add: reset_record del: set_simps)
next
  assume ne: "snake b \<noteq> []" and nw: "\<not> hitsWall (moveHead (hd (snake b)) (dir b))"
  from ne obtain h t where ht: "snake b = h # t" by (cases "snake b") auto
  from stepB_resets_iff [OF ht, of closureFood rs] nw ht
  show "stepB closureFood rs b =
         Inr (b\<lparr>snake := INITIAL_SNAKE, running := False, timers := Suc (timers b)\<rparr>)
       \<longleftrightarrow> moveHead (hd (snake b)) (dir b) \<in> set (snake b)"
    by (simp add: reset_record del: set_simps)
qed

text \<open>
  In the state reached by eating once and turning DOWN, LEFT and UP, the next head is the
  cell of the tail: variant A does not reset and moves on, variant B resets.
\<close>

theorem self_collision_body_witness:
  "runA [Tick [1/2, 1/2], ChangeDir DOWN, Tick [], ChangeDir LEFT, Tick [], ChangeDir UP]
     scenarioA = Inr chaseA \<and>
   snake chaseA \<noteq> [] \<and> \<not> hitsWall (moveHead (hd (snake chaseA)) (dir chaseA)) \<and>
   moveHead (hd (snake chaseA)) (dir chaseA) = last (snake chaseA) \<and>
   stepA [] chaseA \<noteq>
     Inr (chaseA\<lparr>snake := INITIAL_SNAKE, running := False, timers := Suc (timers chaseA)\<rparr>) \<and>
   stepA [] chaseA =
     Inr (chaseA\<lparr>snake := [\<lparr>x = 5, y = 10\<rparr>, \<lparr>x = 5, y = 11\<rparr>, \<lparr>x = 6, y = 11\<rparr>,
                           \<lparr>x = 6, y = 10\<rparr>]\<rparr>) \<and>
   snake chaseB \<noteq> [] \<and> \<not> hitsWall (moveHead (hd (snake chaseB)) (dir chaseB)) \<and>
   moveHead (hd (snake chaseB)) (dir chaseB) = last (snake chaseB) \<and>
   stepB \<lparr>x = 10, y = 13\<rparr> [] chaseB =
     Inr (chaseB\<lparr>snake := INITIAL_SNAKE, running := False, timers := Suc (timers chaseB)\<rparr>)"
proof -
  have a: "snake chaseA \<noteq> []" "\<not> hitsWall (moveHead (hd (snake chaseA)) (dir chaseA))"
    "moveHead (hd (snake chaseA)) (dir chaseA) = last (snake chaseA)"
    "moveHead (hd (snake chaseA)) (dir chaseA) \<noteq> food chaseA" "growthRef chaseA = 0"
    "moveHead (hd (snake chaseA)) (dir chaseA) \<notin> set (butlast (snake chaseA))"
    by (simp_all add: chaseA_def hitsWall_def consts_defs)
  have b: "snake chaseB \<noteq> []" "\<not> hitsWall (moveHead (hd (snake chaseB)) (dir chaseB))"
    "moveHead (hd (snake chaseB)) (dir chaseB) = last (snake chaseB)"
    "moveHead (hd (snake chaseB)) (dir chaseB) \<in> set (snake chaseB)"
    by (simp_all add: chaseB_def hitsWall_def consts_defs)
  from self_collision_body [of chaseA "[]" chaseB "\<lparr>x = 10, y = 13\<rparr>"] a b
  have "stepA [] chaseA \<noteq>
     Inr (chaseA\<lparr>snake := INITIAL_SNAKE, running := False, timers := Suc (timers chaseA)\<rparr>)"
    and "stepB \<lparr>x = 10, y = 13\<rparr> [] chaseB =
     Inr (chaseB\<lparr>snake := INITIAL_SNAKE, running := False, timers := Suc (timers chaseB)\<rparr>)"
    by simp_all
  with a b chaseA_trace stepA_chase show ?thesis by simp
qed

text \<open>
  The claim as stated fails on variant B: in a state reached from the eating scenario
  the food is not eaten and the next head is the last cell of the snake, so it is not in
  the snake without its last cell; variant B resets all the same.
\<close>

theorem self_collision_body_counterexample:
  "runB [(\<lparr>x = 6, y = 10\<rparr>, Tick [1/2, 1/2]), (\<lparr>x = 10, y = 13\<rparr>, ChangeDir DOWN),
         (\<lparr>x = 10, y = 13\<rparr>, Tick []), (\<lparr>x = 10, y = 13\<rparr>, ChangeDir LEFT),
         (\<lparr>x = 10, y = 13\<rparr>, Tick []), (\<lparr>x = 10, y = 13\<rparr>, ChangeDir UP)] scenarioB
     = Inr chaseB \<and>
   moveHead (hd (snake chaseB)) (dir chaseB) \<noteq> \<lparr>x = 10, y = 13\<rparr> \<and>
   \<not> hitsWall (moveHead (hd (snake chaseB)) (dir chaseB)) \<and>
   moveHead (hd (snake chaseB)) (dir chaseB) \<notin> set (butlast (snake chaseB)) \<and>
   stepB \<lparr>x = 10, y = 13\<rparr> [] chaseB =
     Inr (chaseB\<lparr>snake := INITIAL_SNAKE, running := False, timers := 1\<rparr>)"
proof -
  have "moveHead (hd (snake chaseB)) (dir chaseB) \<noteq> \<lparr>x = 10, y = 13\<rparr>"
    "\<not> hitsWall (moveHead (hd (snake chaseB)) (dir chaseB))"
    "moveHead (hd (snake chaseB)) (dir chaseB) \<notin> set (butlast (snake chaseB))"
    by (simp_all add: chaseB_def hitsWall_def consts_defs)
  with chaseB_trace stepB_chase show ?thesis by simp
qed

text \<open>
  Claim C3. Variant A does what the claim says (\<open>stepA_moves\<close>, \<open>stepA_eats\<close>).
  Variant B does not: in the game that dies before it eats, the hooks are those of the
  eating scenario and the closure of the interval's \<open>step\<close> holds the food before the
  reset. The tick moves the head onto the current food, triggers no reset, and leaves the
  length of the snake at 3.
\<close>

theorem stale_closure_no_growth:
  "initLoopB [1/2, 1/2] = Inr (\<lparr>x = 10, y = 13\<rparr>, freshB) \<and>
   runLoopB [ChangeDir UP, Tick [], ChangeDir LEFT, Tick [], Tick [], Tick [], Tick [], Tick [],
             Tick [], ResetTimeout [5/16, 13/32]] (\<lparr>x = 10, y = 13\<rparr>, freshB)
     = Inr (\<lparr>x = 10, y = 13\<rparr>, scenarioB) \<and>
   moveHead (hd (snake scenarioB)) (dir scenarioB) = food scenarioB \<and>
   fireLoopB (Tick [1/2, 1/2]) (\<lparr>x = 10, y = 13\<rparr>, scenarioB)
     = Inr (\<lparr>x = 10, y = 13\<rparr>, missedB) \<and>
   timers missedB = timers scenarioB \<and> running missedB \<and>
   length (snake scenarioB) = 3 \<and> length (snake missedB) = 3"
proof -
  have "moveHead (hd (snake scenarioB)) (dir scenarioB) = food scenarioB"
    "timers missedB = timers scenarioB" "running missedB"
    "length (snake scenarioB) = 3" "length (snake missedB) = 3"
    by (simp_all add: scenarioB_def missedB_def)
  with staleB_start staleB_trace staleB_tick show ?thesis by simp
qed

text \<open>
  Claim C4. A step of a non-empty snake resets exactly when the next head is off the
  board or on the body tested for self-collision (the one of Claim C2 in variant A, the
  whole snake in variant B). The result of such a step is the state with the initial
  snake of three cells, \<open>running\<close> false and one more reset timer pending, everything
  else as before; any other step that returns leaves \<open>running\<close> and the timers alone.
  Only the firing of a pending timer restores the whole initial state (with the food
  \<open>randomFood\<close> returns) and sets \<open>running\<close> to true again.
\<close>

theorem reset_exactly_on_collision:
  "(snake a \<noteq> [] \<longrightarrow>
      (if x (moveHead (hd (snake a)) (dir a)) < 0 \<or> 20 \<le> x (moveHead (hd (snake a)) (dir a)) \<or>
          y (moveHead (hd (snake a)) (dir a)) < 0 \<or> 26 \<le> y (moveHead (hd (snake a)) (dir a)) \<or>
          moveHead (hd (snake a)) (dir a) \<in>
            set (if moveHead (hd (snake a)) (dir a) \<noteq> food a \<and> growthRef a = 0
                 then butlast (snake a) else snake a)
       then stepA rs a =
              Inr (a\<lparr>snake := [\<lparr>x = 5, y = 10\<rparr>, \<lparr>x = 4, y = 10\<rparr>, \<lparr>x = 3, y = 10\<rparr>],
                     running := False, timers := Suc (timers a)\<rparr>)
       else (stepA rs a = Inr a' \<longrightarrow> running a' = running a \<and> timers a' = timers a))) \<and>
   (timers a \<noteq> 0 \<longrightarrow> randomFood INITIAL_SNAKE rs = Some f \<longrightarrow>
      fireA (ResetTimeout rs) a =
        Inr \<lparr>snake = [\<lparr>x = 5, y = 10\<rparr>, \<lparr>x = 4, y = 10\<rparr>, \<lparr>x = 3, y = 10\<rparr>], dir = RIGHT,
             food = f, running = True, score = 0, speed = 140, timers = timers a - 1,
             growthRef = 0\<rparr>) \<and>
   (snake b \<noteq> [] \<longrightarrow>
      (if x (moveHead (hd (snake b)) (dir b)) < 0 \<or> 20 \<le> x (moveHead (hd (snake b)) (dir b)) \<or>
          y (moveHead (hd (snake b)) (dir b)) < 0 \<or> 26 \<le> y (moveHead (hd (snake b)) (dir b)) \<or>
          moveHead (hd (snake b)) (dir b) \<in> set (snake b)
       then stepB closureFood rs b =
              Inr (b\<lparr>snake := [\<lparr>x = 5, y = 10\<rparr>, \<lparr>x = 4, y = 10\<rparr>, \<lparr>x = 3, y = 10\<rparr>],
                     running := False, timers := Suc (timers b)\<rparr>)
       else (stepB closureFood rs b = Inr b' \<longrightarrow>
               running b' = running b \<and> timers b' = timers b))) \<and>
   (timers b \<noteq> 0 \<longrightarrow> randomFood INITIAL_SNAKE rs = Some f \<longrightarrow>
      fireB closureFood (ResetTimeout rs) b =
        Inr \<lparr>snake = [\<lparr>x = 5, y = 10\<rparr>, \<lparr>x = 4, y = 10\<rparr>, \<lparr>x = 3, y = 10\<rparr>], dir = RIGHT,
             food = f, running = True, score = 0, speed = 140, timers = timers b - 1\<rparr>)"
proof (intro conjI impI)
  assume ne: "snake a \<noteq> []"
  then obtain h t where ht: "snake a = h # t" by (cases "snake a") auto
  let ?n = "moveHead h (dir a)"
  let ?body = "if ?n \<noteq> food a \<and> growthRef a = 0 then butlast (snake a) else snake a"
  let ?c = "hitsWall ?n \<or> ?n \<in> set ?body"
  let ?R = "stepA rs a =
      Inr (a\<lparr>snake := [\<lparr>x = 5, y = 10\<rparr>, \<lparr>x = 4, y = 10\<rparr>, \<lparr>x = 3, y = 10\<rparr>],
             running := False, timers := Suc (timers a)\<rparr>)"
  let ?K = "stepA rs a = Inr a' \<longrightarrow> running a' = running a \<and> timers a' = timers a"
  have hdn: "moveHead (hd (snake a)) (dir a) = ?n" by (simp add: ht)
  have c: "(x ?n < 0 \<or> 20 \<le> x ?n \<or> y ?n < 0 \<or> 26 \<le> y ?n \<or> ?n \<in> set ?body) \<longleftrightarrow> ?c"
    unfolding hitsWall_def BOARD_COLS_def BOARD_ROWS_def by blast
  have main: "if ?c then ?R else ?K"
  proof (cases ?c)
    case True
    then have ?R
      using stepA_resets_iff [OF ht, of rs] by (simp add: reset_record INITIAL_SNAKE_def)
    with True show ?thesis by (simp only: if_True)
  next
    case False
    then have ?K using stepA_no_reset_fields [OF ht, of rs a'] by blast
    with False show ?thesis by (simp only: if_False)
  qed
  then show "if x (moveHead (hd (snake a)) (dir a)) < 0 \<or> 20 \<le> x (moveHead (hd (snake a)) (dir a)) \<or>
          y (moveHead (hd (snake a)) (dir a)) < 0 \<or> 26 \<le> y (moveHead (hd (snake a)) (dir a)) \<or>
          moveHead (hd (snake a)) (dir a) \<in>
            set (if moveHead (hd (snake a)) (dir a) \<noteq> food a \<and> growthRef a = 0
                 then butlast (snake a) else snake a)
       then stepA rs a =
              Inr (a\<lparr>snake := [\<lparr>x = 5, y = 10\<rparr>, \<lparr>x = 4, y = 10\<rparr>, \<lparr>x = 3, y = 10\<rparr>],
                     running := False, timers := Suc (timers a)\<rparr>)
       else (stepA rs a = Inr a' \<longrightarrow> running a' = running a \<and> timers a' = timers a)"
    by (simp only: hdn c)
next
  assume ne: "snake b \<noteq> []"
  then obtain h t where ht: "snake b = h # t" by (cases "snake b") auto
  let ?n = "moveHead h (dir b)"
  let ?c = "hitsWall ?n \<or> ?n \<in> set (snake b)"
  let ?R = "stepB closureFood rs b =
      Inr (b\<lparr>snake := [\<lparr>x = 5, y = 10\<rparr>, \<lparr>x = 4, y = 10\<rparr>, \<lparr>x = 3, y = 10\<rparr>],
             running := False, timers := Suc (timers b)\<rparr>)"
  let ?K = "stepB closureFood rs b = Inr b' \<longrightarrow> running b' = running b \<and> timers b' = timers b"
  have hdn: "moveHead (hd (snake b)) (dir b) = ?n" by (simp add: ht)
  have c: "(x ?n < 0 \<or> 20 \<le> x ?n \<or> y ?n < 0 \<or> 26 \<le> y ?n \<or> ?n \<in> set (snake b)) \<longleftrightarrow> ?c"
    unfolding hitsWall_def BOARD_COLS_def BOARD_ROWS_def by blast
  have main: "if ?c then ?R else ?K"
  proof (cases ?c)
    case True
    then have ?R
      using stepB_resets_iff [OF ht, of closureFood rs]
      by (simp add: reset_record INITIAL_SNAKE_def)
    with True show ?thesis by (simp only: if_True)
  next
    case False
    then have ?K using stepB_no_reset_fields [OF ht, of closureFood rs b'] by blast
    with False show ?thesis by (simp only: if_False)
  qed
  then show "if x (moveHead (hd (snake b)) (dir b)) < 0 \<or> 20 \<le> x (moveHead (hd (snake b)) (dir b)) \<or>
          y (moveHead (hd (snake b)) (dir b)) < 0 \<or> 26 \<le> y (moveHead (hd (snake b)) (dir b)) \<or>
          moveHead (hd (snake b)) (dir b) \<in> set (snake b)
       then stepB closureFood rs b =
              Inr (b\<lparr>snake := [\<lparr>x = 5, y = 10\<rparr>, \<lparr>x = 4, y = 10\<rparr>, \<lparr>x = 3, y = 10\<rparr>],
                     running := False, timers := Suc (timers b)\<rparr>)
       else (stepB closureFood rs b = Inr b' \<longrightarrow>
               running b' = running b \<and> timers b' = timers b)"
    by (simp only: hdn c)
next
  assume "timers a \<noteq> 0" "randomFood INITIAL_SNAKE rs = Some f"
  then show "fireA (ResetTimeout rs) a =
        Inr \<lparr>snake = [\<lparr>x = 5, y = 10\<rparr>, \<lparr>x = 4, y = 10\<rparr>, \<lparr>x = 3, y = 10\<rparr>], dir = RIGHT,
             food = f, running = True, score = 0, speed = 140, timers = timers a - 1,
             growthRef = 0\<rparr>"
    by (simp add: resetTimeoutA_def consts_defs)
next
  assume "timers b \<noteq> 0" "randomFood INITIAL_SNAKE rs = Some f"
  then show "fireB closureFood (ResetTimeout rs) b =
        Inr \<lparr>snake = [\<lparr>x = 5, y = 10\<rparr>, \<lparr>x = 4, y = 10\<rparr>, \<lparr>x = 3, y = 10\<rparr>], dir = RIGHT,
             food = f, running = True, score = 0, speed = 140, timers = timers b - 1\<rparr>"
    by (simp add: resetTimeoutB_def consts_defs)
qed

text \<open>The wall scenario, the eating scenario and the end of a pause.\<close>

theorem reset_exactly_on_collision_witness:
  "snake wallA \<noteq> [] \<and> moveHead (hd (snake wallA)) (dir wallA) = \<lparr>x = 20, y = 10\<rparr> \<and>
   stepA [] wallA =
     Inr (wallA\<lparr>snake := [\<lparr>x = 5, y = 10\<rparr>, \<lparr>x = 4, y = 10\<rparr>, \<lparr>x = 3, y = 10\<rparr>],
                running := False, timers := 1\<rparr>) \<and>
   snake scenarioA \<noteq> [] \<and> stepA [1/2, 1/2] scenarioA = Inr fedA \<and>
   running fedA = running scenarioA \<and> timers fedA = timers scenarioA \<and>
   timers pausedA \<noteq> 0 \<and> randomFood INITIAL_SNAKE [5/16, 13/32] = Some \<lparr>x = 6, y = 10\<rparr> \<and>
   fireA (ResetTimeout [5/16, 13/32]) pausedA = Inr scenarioA \<and>
   snake wallB \<noteq> [] \<and> moveHead (hd (snake wallB)) (dir wallB) = \<lparr>x = 20, y = 10\<rparr> \<and>
   stepB \<lparr>x = 6, y = 10\<rparr> [] wallB =
     Inr (wallB\<lparr>snake := [\<lparr>x = 5, y = 10\<rparr>, \<lparr>x = 4, y = 10\<rparr>, \<lparr>x = 3, y = 10\<rparr>],
                running := False, timers := 1\<rparr>) \<and>
   snake scenarioB \<noteq> [] \<and> stepB \<lparr>x = 6, y = 10\<rparr> [1/2, 1/2] scenarioB = Inr fedB \<and>
   running fedB = running scenarioB \<and> timers fedB = timers scenarioB \<and>
   timers pausedB \<noteq> 0 \<and>
   fireB \<lparr>x = 6, y = 10\<rparr> (ResetTimeout [5/16, 13/32]) pausedB = Inr scenarioB"
proof -
  have w: "snake wallA \<noteq> []" "moveHead (hd (snake wallA)) (dir wallA) = \<lparr>x = 20, y = 10\<rparr>"
    "timers wallA = 0"
    "snake wallB \<noteq> []" "moveHead (hd (snake wallB)) (dir wallB) = \<lparr>x = 20, y = 10\<rparr>"
    "timers wallB = 0"
    by (simp_all add: wallA_def wallB_def)
  have sc: "snake scenarioA \<noteq> []" "snake scenarioB \<noteq> []"
    by (simp_all add: scenarioA_def scenarioB_def)
  have p: "timers pausedA \<noteq> 0" "timers pausedB \<noteq> 0"
    by (simp_all add: pausedA_def pausedB_def)
  have r: "randomFood INITIAL_SNAKE [5/16, 13/32] = Some \<lparr>x = 6, y = 10\<rparr>"
    by (simp add: consts_defs fl_eval)
  have t: "scenarioA = \<lparr>snake = [\<lparr>x = 5, y = 10\<rparr>, \<lparr>x = 4, y = 10\<rparr>, \<lparr>x = 3, y = 10\<rparr>],
      dir = RIGHT, food = \<lparr>x = 6, y = 10\<rparr>, running = True, score = 0, speed = 140,
      timers = timers pausedA - 1, growthRef = 0\<rparr>"
    "scenarioB = \<lparr>snake = [\<lparr>x = 5, y = 10\<rparr>, \<lparr>x = 4, y = 10\<rparr>, \<lparr>x = 3, y = 10\<rparr>],
      dir = RIGHT, food = \<lparr>x = 6, y = 10\<rparr>, running = True, score = 0, speed = 140,
      timers = timers pausedB - 1\<rparr>"
    by (simp_all add: scenarioA_def scenarioB_def pausedA_def pausedB_def)
  from reset_exactly_on_collision
    [where a = wallA and rs = "[]" and b = wallB and closureFood = "\<lparr>x = 6, y = 10\<rparr>"] w
  have c1: "stepA [] wallA =
     Inr (wallA\<lparr>snake := [\<lparr>x = 5, y = 10\<rparr>, \<lparr>x = 4, y = 10\<rparr>, \<lparr>x = 3, y = 10\<rparr>],
                running := False, timers := 1\<rparr>)"
    and c2: "stepB \<lparr>x = 6, y = 10\<rparr> [] wallB =
     Inr (wallB\<lparr>snake := [\<lparr>x = 5, y = 10\<rparr>, \<lparr>x = 4, y = 10\<rparr>, \<lparr>x = 3, y = 10\<rparr>],
                running := False, timers := 1\<rparr>)"
    by simp_all
  from reset_exactly_on_collision
    [where a = pausedA and rs = "[5/16, 13/32]" and f = "\<lparr>x = 6, y = 10\<rparr>" and b = pausedB
       and closureFood = "\<lparr>x = 6, y = 10\<rparr>"] p r t
  have c3: "fireA (ResetTimeout [5/16, 13/32]) pausedA = Inr scenarioA"
    and c4: "fireB \<lparr>x = 6, y = 10\<rparr> (ResetTimeout [5/16, 13/32]) pausedB = Inr scenarioB"
    by simp_all
  have c5: "running fedA = running scenarioA \<and> timers fedA = timers scenarioA"
    "running fedB = running scenarioB \<and> timers fedB = timers scenarioB"
    by (simp_all add: fedA_def fedB_def scenarioA_def scenarioB_def)
  from w sc p r c1 c2 c3 c4 c5 stepA_scenario stepB_scenario show ?thesis by simp
qed

text \<open>
  Claim C5. \<open>changeDir next\<close> sets the direction to \<open>next\<close> unless \<open>next\<close> is the opposite
  of the current direction, which it then keeps; nothing else changes. The current
  direction is the one the next step moves the head by. After several requests the state
  differs from the one before them in the direction only, and the direction is the last
  request unless that one reversed the direction standing when it arrived: nothing is
  queued.
\<close>

theorem changeDir_rejects_only_reversal:
  "changeDir next s = s\<lparr>dir := (if next = opposite (dir s) then dir s else next)\<rparr> \<and>
   fold changeDir (ds @ [next]) s =
     s\<lparr>dir := (if next = opposite (dir (fold changeDir ds s)) then dir (fold changeDir ds s)
               else next)\<rparr> \<and>
   (stepA rs (changeDir next a) = Inr a' \<longrightarrow> timers a' = timers a \<longrightarrow>
      hd (snake a') =
        moveHead (hd (snake a)) (if next = opposite (dir a) then dir a else next)) \<and>
   (stepB closureFood rs (changeDir next b) = Inr b' \<longrightarrow> timers b' = timers b \<longrightarrow>
      hd (snake b') =
        moveHead (hd (snake b)) (if next = opposite (dir b) then dir b else next))"
proof (intro conjI impI)
  show "changeDir next s = s\<lparr>dir := (if next = opposite (dir s) then dir s else next)\<rparr>"
    by (rule changeDir_opposite)
next
  have "fold changeDir (ds @ [next]) s = changeDir next (fold changeDir ds s)" by simp
  also have "\<dots> = (fold changeDir ds s)
      \<lparr>dir := (if next = opposite (dir (fold changeDir ds s)) then dir (fold changeDir ds s)
               else next)\<rparr>"
    by (rule changeDir_opposite)
  also have "\<dots> = (s\<lparr>dir := dir (fold changeDir ds s)\<rparr>)
      \<lparr>dir := (if next = opposite (dir (fold changeDir ds s)) then dir (fold changeDir ds s)
               else next)\<rparr>"
    using fold_changeDir [of ds s] by simp
  finally show "fold changeDir (ds @ [next]) s =
     s\<lparr>dir := (if next = opposite (dir (fold changeDir ds s)) then dir (fold changeDir ds s)
               else next)\<rparr>"
    by simp
next
  assume "stepA rs (changeDir next a) = Inr a'" "timers a' = timers a"
  then show "hd (snake a') =
        moveHead (hd (snake a)) (if next = opposite (dir a) then dir a else next)"
    using stepA_head [of rs "changeDir next a" a']
    by (simp add: changeDir_fields) (simp add: changeDir_opposite)
next
  assume "stepB closureFood rs (changeDir next b) = Inr b'" "timers b' = timers b"
  then show "hd (snake b') =
        moveHead (hd (snake b)) (if next = opposite (dir b) then dir b else next)"
    using stepB_head [of closureFood rs "changeDir next b" b']
    by (simp add: changeDir_fields) (simp add: changeDir_opposite)
qed

text \<open>From the scenario state: LEFT is rejected; UP, DOWN, LEFT leaves LEFT; a step after UP.\<close>

theorem changeDir_rejects_only_reversal_witness:
  "changeDir LEFT scenarioA = scenarioA \<and>
   fold changeDir [UP, DOWN, LEFT] scenarioA = scenarioA\<lparr>dir := LEFT\<rparr> \<and>
   stepA [] (changeDir UP scenarioA) = Inr (scenarioA\<lparr>dir := UP,
      snake := [\<lparr>x = 5, y = 9\<rparr>, \<lparr>x = 5, y = 10\<rparr>, \<lparr>x = 4, y = 10\<rparr>]\<rparr>) \<and>
   hd (snake (scenarioA\<lparr>dir := UP,
      snake := [\<lparr>x = 5, y = 9\<rparr>, \<lparr>x = 5, y = 10\<rparr>, \<lparr>x = 4, y = 10\<rparr>]\<rparr>)) =
     moveHead (hd (snake scenarioA)) UP \<and>
   stepB \<lparr>x = 6, y = 10\<rparr> [] (changeDir UP scenarioB) = Inr (scenarioB\<lparr>dir := UP,
      snake := [\<lparr>x = 5, y = 9\<rparr>, \<lparr>x = 5, y = 10\<rparr>, \<lparr>x = 4, y = 10\<rparr>]\<rparr>) \<and>
   hd (snake (scenarioB\<lparr>dir := UP,
      snake := [\<lparr>x = 5, y = 9\<rparr>, \<lparr>x = 5, y = 10\<rparr>, \<lparr>x = 4, y = 10\<rparr>]\<rparr>)) =
     moveHead (hd (snake scenarioB)) UP"
proof -
  have sa: "stepA [] (changeDir UP scenarioA) = Inr (scenarioA\<lparr>dir := UP,
      snake := [\<lparr>x = 5, y = 9\<rparr>, \<lparr>x = 5, y = 10\<rparr>, \<lparr>x = 4, y = 10\<rparr>]\<rparr>)"
    by (simp add: stepA_def changeDir_def scenarioA_def Let_def hitsWall_def consts_defs
        tailAdjust_def)
  have sb: "stepB \<lparr>x = 6, y = 10\<rparr> [] (changeDir UP scenarioB) = Inr (scenarioB\<lparr>dir := UP,
      snake := [\<lparr>x = 5, y = 9\<rparr>, \<lparr>x = 5, y = 10\<rparr>, \<lparr>x = 4, y = 10\<rparr>]\<rparr>)"
    by (simp add: stepB_def changeDir_def scenarioB_def Let_def hitsWall_def consts_defs)
  have d: "dir scenarioA = RIGHT" "dir scenarioB = RIGHT"
    by (simp_all add: scenarioA_def scenarioB_def)
  have f: "fold changeDir [UP, DOWN] scenarioA = scenarioA\<lparr>dir := UP\<rparr>"
    by (simp add: changeDir_def scenarioA_def)
  from changeDir_rejects_only_reversal [of LEFT scenarioA "[]" "[]" scenarioA scenarioA
      "\<lparr>x = 6, y = 10\<rparr>" scenarioB scenarioB]
  have c1: "changeDir LEFT scenarioA = scenarioA" using d by (simp add: scenarioA_def)
  from changeDir_rejects_only_reversal [of LEFT scenarioA "[UP, DOWN]" "[]" scenarioA scenarioA
      "\<lparr>x = 6, y = 10\<rparr>" scenarioB scenarioB] f
  have c2: "fold changeDir [UP, DOWN, LEFT] scenarioA = scenarioA\<lparr>dir := LEFT\<rparr>"
    by simp
  from changeDir_rejects_only_reversal [of UP scenarioA "[]" "[]" scenarioA
      "scenarioA\<lparr>dir := UP, snake := [\<lparr>x = 5, y = 9\<rparr>, \<lparr>x = 5, y = 10\<rparr>, \<lparr>x = 4, y = 10\<rparr>]\<rparr>"
      "\<lparr>x = 6, y = 10\<rparr>" scenarioB
      "scenarioB\<lparr>dir := UP, snake := [\<lparr>x = 5, y = 9\<rparr>, \<lparr>x = 5, y = 10\<rparr>, \<lparr>x = 4, y = 10\<rparr>]\<rparr>"]
    sa sb d
  have c3: "hd (snake (scenarioA\<lparr>dir := UP,
      snake := [\<lparr>x = 5, y = 9\<rparr>, \<lparr>x = 5, y = 10\<rparr>, \<lparr>x = 4, y = 10\<rparr>]\<rparr>)) =
     moveHead (hd (snake scenarioA)) UP"
    and c4: "hd (snake (scenarioB\<lparr>dir := UP,
      snake := [\<lparr>x = 5, y = 9\<rparr>, \<lparr>x = 5, y = 10\<rparr>, \<lparr>x = 4, y = 10\<rparr>]\<rparr>)) =
     moveHead (hd (snake scenarioB)) UP"
    by simp_all
  from c1 c2 c3 c4 sa sb show ?thesis by simp
qed

text \<open>
  Claim C6. Variant A does what the claim says (\<open>stepA_eats\<close>, \<open>stepA_moves\<close>,
  \<open>stepsA_speed\<close>, \<open>reachableA_speed\<close>). Variant B does not: in the game that dies
  before it eats, the tick moves the head onto the current food and leaves the score at
  0, the speed at 140 and the food where it is.
\<close>

theorem stale_closure_no_score:
  "initLoopB [1/2, 1/2] = Inr (\<lparr>x = 10, y = 13\<rparr>, freshB) \<and>
   runLoopB [ChangeDir UP, Tick [], ChangeDir LEFT, Tick [], Tick [], Tick [], Tick [], Tick [],
             Tick [], ResetTimeout [5/16, 13/32]] (\<lparr>x = 10, y = 13\<rparr>, freshB)
     = Inr (\<lparr>x = 10, y = 13\<rparr>, scenarioB) \<and>
   moveHead (hd (snake scenarioB)) (dir scenarioB) = food scenarioB \<and>
   fireLoopB (Tick [1/2, 1/2]) (\<lparr>x = 10, y = 13\<rparr>, scenarioB)
     = Inr (\<lparr>x = 10, y = 13\<rparr>, missedB) \<and>
   score scenarioB = 0 \<and> score missedB = 0 \<and> speed scenarioB = 140 \<and> speed missedB = 140 \<and>
   food missedB = food scenarioB \<and> hd (snake missedB) = food missedB"
proof -
  have "moveHead (hd (snake scenarioB)) (dir scenarioB) = food scenarioB"
    "score scenarioB = 0" "score missedB = 0" "speed scenarioB = 140" "speed missedB = 140"
    "food missedB = food scenarioB" "hd (snake missedB) = food missedB"
    by (simp_all add: scenarioB_def missedB_def)
  with staleB_start staleB_trace staleB_tick show ?thesis by simp
qed

text \<open>
  Claim C7. In variant A the step of the scenario eats, in a first game
  (\<open>stepA_scenario\<close>) and after a death (\<open>freshA_trace\<close>). In variant B it eats
  in a first game (\<open>stepB_scenario\<close>) but not in the game that dies before it eats: the
  hooks are exactly those of the scenario, the closure of the interval's \<open>step\<close> holds
  \<open>(10,13)\<close>, and the step gives the snake \<open>[(6,10),(5,10),(4,10)]\<close>, score 0 and
  speed 140.
\<close>

theorem stale_closure_scenario:
  "initLoopB [1/2, 1/2] = Inr (\<lparr>x = 10, y = 13\<rparr>, freshB) \<and>
   runLoopB [ChangeDir UP, Tick [], ChangeDir LEFT, Tick [], Tick [], Tick [], Tick [], Tick [],
             Tick [], ResetTimeout [5/16, 13/32]] (\<lparr>x = 10, y = 13\<rparr>, freshB)
     = Inr (\<lparr>x = 10, y = 13\<rparr>,
            \<lparr>snake = [\<lparr>x = 5, y = 10\<rparr>, \<lparr>x = 4, y = 10\<rparr>, \<lparr>x = 3, y = 10\<rparr>], dir = RIGHT,
             food = \<lparr>x = 6, y = 10\<rparr>, running = True, score = 0, speed = 140, timers = 0\<rparr>) \<and>
   stepB \<lparr>x = 10, y = 13\<rparr> [1/2, 1/2]
     \<lparr>snake = [\<lparr>x = 5, y = 10\<rparr>, \<lparr>x = 4, y = 10\<rparr>, \<lparr>x = 3, y = 10\<rparr>], dir = RIGHT,
      food = \<lparr>x = 6, y = 10\<rparr>, running = True, score = 0, speed = 140, timers = 0\<rparr>
     = Inr \<lparr>snake = [\<lparr>x = 6, y = 10\<rparr>, \<lparr>x = 5, y = 10\<rparr>, \<lparr>x = 4, y = 10\<rparr>], dir = RIGHT,
            food = \<lparr>x = 6, y = 10\<rparr>, running = True, score = 0, speed = 140, timers = 0\<rparr> \<and>
   initA [1/2, 1/2] = Inr freshA \<and>
   runA [ChangeDir UP, Tick [], ChangeDir LEFT, Tick [], Tick [], Tick [], Tick [], Tick [],
         Tick [], ResetTimeout [5/16, 13/32], Tick [1/2, 1/2]] freshA
     = Inr \<lparr>snake = [\<lparr>x = 6, y = 10\<rparr>, \<lparr>x = 5, y = 10\<rparr>, \<lparr>x = 4, y = 10\<rparr>, \<lparr>x = 3, y = 10\<rparr>],
            dir = RIGHT, food = \<lparr>x = 10, y = 13\<rparr>, running = True, score = 1, speed = 134,
            timers = 0, growthRef = 0\<rparr>"
proof -
  have "stepB \<lparr>x = 10, y = 13\<rparr> [1/2, 1/2] scenarioB = Inr missedB"
    using staleB_tick by (auto simp: scenarioB_def split: sum.splits if_splits)
  with staleB_start staleB_trace freshA_start freshA_trace show ?thesis
    by (simp add: scenarioB_def missedB_def fedA_def)
qed




text \<open>
  Claim C9. When \<open>randomFood occupied\<close> returns a cell, the cell is not in \<open>occupied\<close>, and
  it is on the board (\<open>0 \<le> x < 20\<close>, \<open>0 \<le> y < 26\<close>) when every draw of \<open>Math.random()\<close>
  is a double in \<open>[0, 1)\<close>. Hence the food placed at the first render, after eating and by the
  reset timer is on no cell of the snake of the state it is placed in; both variants.
  (That the loop does return once a round of draws is free is \<open>randomFood_returns\<close>.)
\<close>

theorem randomFood_cell_is_free:
  "((\<forall>r \<in> set rs. isDouble r \<and> 0 \<le> r \<and> r < 1) \<longrightarrow> randomFood occupied rs = Some f \<longrightarrow>
      0 \<le> x f \<and> x f < 20 \<and> 0 \<le> y f \<and> y f < 26) \<and>
   (randomFood occupied rs = Some f \<longrightarrow> f \<notin> set occupied) \<and>
   (initA rs = Inr a0 \<longrightarrow> food a0 \<notin> set (snake a0)) \<and>
   (stepA rs a = Inr a' \<longrightarrow> timers a' = timers a \<longrightarrow>
      moveHead (hd (snake a)) (dir a) = food a \<longrightarrow> food a' \<notin> set (snake a')) \<and>
   (resetTimeoutA rs a = Inr a'' \<longrightarrow> food a'' \<notin> set (snake a'')) \<and>
   (initB rs = Inr b0 \<longrightarrow> food b0 \<notin> set (snake b0)) \<and>
   (stepB closureFood rs b = Inr b' \<longrightarrow> timers b' = timers b \<longrightarrow>
      moveHead (hd (snake b)) (dir b) = closureFood \<longrightarrow> food b' \<notin> set (snake b')) \<and>
   (resetTimeoutB rs b = Inr b'' \<longrightarrow> food b'' \<notin> set (snake b''))"
proof (intro conjI impI)
  assume "\<forall>r \<in> set rs. isDouble r \<and> 0 \<le> r \<and> r < 1" "randomFood occupied rs = Some f"
  then have "0 \<le> x f \<and> x f < 20 \<and> 0 \<le> y f \<and> y f < 26" by (rule randomFood_in_bounds)
  then show "0 \<le> x f" "x f < 20" "0 \<le> y f" "y f < 26" by simp_all
next
  assume "randomFood occupied rs = Some f"
  then show "f \<notin> set occupied" using randomFood_Some by blast
next
  assume "initA rs = Inr a0"
  then obtain g where "randomFood INITIAL_SNAKE rs = Some g" "food a0 = g"
    "snake a0 = INITIAL_SNAKE"
    by (auto simp: initA_def split: option.splits)
  then show "food a0 \<notin> set (snake a0)" using randomFood_Some by fastforce
next
  assume "initB rs = Inr b0"
  then obtain g where "randomFood INITIAL_SNAKE rs = Some g" "food b0 = g"
    "snake b0 = INITIAL_SNAKE"
    by (auto simp: initB_def split: option.splits)
  then show "food b0 \<notin> set (snake b0)" using randomFood_Some by fastforce
next
  assume "resetTimeoutA rs a = Inr a''"
  then obtain g where "randomFood INITIAL_SNAKE rs = Some g" "food a'' = g"
    "snake a'' = INITIAL_SNAKE"
    by (auto simp: resetTimeoutA_def split: option.splits)
  then show "food a'' \<notin> set (snake a'')" using randomFood_Some by fastforce
next
  assume "resetTimeoutB rs b = Inr b''"
  then obtain g where "randomFood INITIAL_SNAKE rs = Some g" "food b'' = g"
    "snake b'' = INITIAL_SNAKE"
    by (auto simp: resetTimeoutB_def split: option.splits)
  then show "food b'' \<notin> set (snake b'')" using randomFood_Some by fastforce
next
  assume st: "stepA rs a = Inr a'" and tm: "timers a' = timers a"
    and ate: "moveHead (hd (snake a)) (dir a) = food a"
  from stepA_result [OF st] tm ate obtain g where
    g: "randomFood (food a # snake a) rs = Some g"
    and a': "a' = tailAdjust (food a # snake a) (foodBookkeeping g a)"
    by (auto simp: resetGame_fields)
  from g have "g \<notin> set (food a # snake a)" using randomFood_Some by blast
  moreover have "set (snake a') \<subseteq> set (food a # snake a)"
    using a' by (auto simp: tailAdjust_snake dest: in_set_butlastD simp del: butlast.simps)
  moreover have "food a' = g" using a' by (simp add: tailAdjust_fields foodBookkeeping_fields)
  ultimately show "food a' \<notin> set (snake a')" by blast
next
  assume st: "stepB closureFood rs b = Inr b'" and tm: "timers b' = timers b"
    and ate: "moveHead (hd (snake b)) (dir b) = closureFood"
  from stepB_result [OF st] tm ate obtain g where
    g: "randomFood (closureFood # snake b) rs = Some g"
    and b': "b' = b\<lparr>snake := closureFood # snake b, score := score b + 1, food := g,
                    speed := speedUp (speed b)\<rparr>"
    by (auto simp: resetGame_fields)
  from g have "g \<notin> set (closureFood # snake b)" using randomFood_Some by blast
  with b' show "food b' \<notin> set (snake b')" by simp
qed

text \<open>The doubles \<open>5/16\<close> and \<open>13/32\<close> give the cell \<open>(6,10)\<close>; the scenario states.\<close>

theorem randomFood_cell_is_free_witness:
  "list_all (\<lambda>r. isDouble r \<and> 0 \<le> r \<and> r < 1) [5/16, 13/32] \<and>
   randomFood INITIAL_SNAKE [5/16, 13/32] = Some \<lparr>x = 6, y = 10\<rparr> \<and>
   \<lparr>x = 6, y = 10\<rparr> \<notin> set INITIAL_SNAKE \<and>
   initA [5/16, 13/32] = Inr scenarioA \<and> food scenarioA \<notin> set (snake scenarioA) \<and>
   stepA [1/2, 1/2] scenarioA = Inr fedA \<and> timers fedA = timers scenarioA \<and>
   moveHead (hd (snake scenarioA)) (dir scenarioA) = food scenarioA \<and>
   food fedA \<notin> set (snake fedA) \<and>
   resetTimeoutA [5/16, 13/32] pausedA = Inr scenarioA \<and>
   initB [5/16, 13/32] = Inr scenarioB \<and> food scenarioB \<notin> set (snake scenarioB) \<and>
   stepB \<lparr>x = 6, y = 10\<rparr> [1/2, 1/2] scenarioB = Inr fedB \<and> timers fedB = timers scenarioB \<and>
   moveHead (hd (snake scenarioB)) (dir scenarioB) = \<lparr>x = 6, y = 10\<rparr> \<and>
   food fedB \<notin> set (snake fedB) \<and>
   resetTimeoutB [5/16, 13/32] pausedB = Inr scenarioB"
proof -
  have d: "list_all (\<lambda>r. isDouble r \<and> 0 \<le> r \<and> r < 1) [5/16, 13/32]"
    by (simp add: isDouble_def fl_eval)
  have r: "randomFood INITIAL_SNAKE [5/16, 13/32] = Some \<lparr>x = 6, y = 10\<rparr>"
    by (simp add: consts_defs fl_eval)
  have a: "timers fedA = timers scenarioA"
    "moveHead (hd (snake scenarioA)) (dir scenarioA) = food scenarioA"
    by (simp_all add: fedA_def scenarioA_def)
  have b: "timers fedB = timers scenarioB"
    "moveHead (hd (snake scenarioB)) (dir scenarioB) = \<lparr>x = 6, y = 10\<rparr>"
    by (simp_all add: fedB_def scenarioB_def)
  from randomFood_cell_is_free [of "[5/16, 13/32]" INITIAL_SNAKE "\<lparr>x = 6, y = 10\<rparr>"
      scenarioA pausedA fedA scenarioA scenarioB "\<lparr>x = 6, y = 10\<rparr>" pausedB fedB scenarioB]
    randomFood_cell_is_free [of "[1/2, 1/2]" INITIAL_SNAKE "\<lparr>x = 6, y = 10\<rparr>"
      scenarioA scenarioA fedA scenarioA scenarioB "\<lparr>x = 6, y = 10\<rparr>" scenarioB fedB scenarioB]
    d r a b initA_scenario initB_scenario stepA_scenario stepB_scenario
    resetTimeoutA_paused resetTimeoutB_paused
  show ?thesis by (simp add: list_all_iff)
qed

text \<open>
  Claim C10. In variant A the growth counter is 0 in every reachable state, so at the
  start of every step, and 0 after every step that returns. The food bookkeeping raises
  it to 1 and the tail adjustment of the same step lowers it to 0 again and keeps the
  whole new snake, so the growth happens on the eating tick; without food the tail is
  dropped at once. The self-collision test therefore includes the tail only when the food
  is eaten.
\<close>

theorem growth_counter_always_zero:
  fixes s :: gameA
  defines "n \<equiv> moveHead (hd (snake s)) (dir s)"
  shows "reachableA s \<longrightarrow>
     growthRef s = 0 \<and>
     growthRef (foodBookkeeping newFood s) = 1 \<and>
     tailAdjust newSnake (foodBookkeeping newFood s) =
       (foodBookkeeping newFood s)\<lparr>growthRef := 0, snake := newSnake\<rparr> \<and>
     tailAdjust newSnake s = s\<lparr>snake := butlast newSnake\<rparr> \<and>
     (stepA rs s = Inr s' \<longrightarrow> growthRef s' = 0) \<and>
     (stepA rs s = Inr s' \<longrightarrow> timers s' = timers s \<longrightarrow>
        snake s' = (if n = food s then n # snake s else n # butlast (snake s))) \<and>
     (stepA rs s = Inr ((resetGame s)\<lparr>snake := INITIAL_SNAKE\<rparr>) \<longleftrightarrow>
        hitsWall n \<or> n \<in> set (if n = food s then snake s else butlast (snake s)))"
proof (intro impI conjI)
  assume r: "reachableA s"
  then show g: "growthRef s = 0" by (rule reachableA_growth)
  from r obtain h t where ht: "snake s = h # t"
    using reachableA_good [of s] by (cases "snake s") auto
  then have n: "n = moveHead h (dir s)" by (simp add: n_def)
  show g1: "growthRef (foodBookkeeping newFood s) = 1"
    using g by (simp add: foodBookkeeping_fields)
  show "tailAdjust newSnake (foodBookkeeping newFood s) =
       (foodBookkeeping newFood s)\<lparr>growthRef := 0, snake := newSnake\<rparr>"
    using g1 by (simp add: tailAdjust_def)
  show "tailAdjust newSnake s = s\<lparr>snake := butlast newSnake\<rparr>"
    using g by (simp add: tailAdjust_def)
  show "stepA rs s = Inr ((resetGame s)\<lparr>snake := INITIAL_SNAKE\<rparr>) \<longleftrightarrow>
        hitsWall n \<or> n \<in> set (if n = food s then snake s else butlast (snake s))"
    unfolding n using stepA_resets_iff [OF ht, of rs] g by (simp del: set_simps)
  {
    assume st: "stepA rs s = Inr s'"
    from g st show "growthRef s' = 0" by (rule stepA_growth)
    assume tm: "timers s' = timers s"
    from stepA_result [OF st] tm g ht
    show "snake s' = (if n = food s then n # snake s else n # butlast (snake s))"
      unfolding n
      by (auto simp: tailAdjust_snake tailAdjust_fields foodBookkeeping_fields resetGame_fields)
  }
qed

text \<open>The step of the eating scenario.\<close>

theorem growth_counter_always_zero_witness:
  "reachableA scenarioA \<and> growthRef scenarioA = 0 \<and>
   growthRef (foodBookkeeping \<lparr>x = 10, y = 13\<rparr> scenarioA) = 1 \<and>
   stepA [1/2, 1/2] scenarioA = Inr fedA \<and> growthRef fedA = 0 \<and>
   timers fedA = timers scenarioA \<and>
   moveHead (hd (snake scenarioA)) (dir scenarioA) = food scenarioA \<and>
   snake fedA = \<lparr>x = 6, y = 10\<rparr> # snake scenarioA"
proof -
  have a: "timers fedA = timers scenarioA"
    "moveHead (hd (snake scenarioA)) (dir scenarioA) = food scenarioA"
    "food scenarioA = \<lparr>x = 6, y = 10\<rparr>"
    by (simp_all add: fedA_def scenarioA_def)
  from growth_counter_always_zero
    [of scenarioA "\<lparr>x = 10, y = 13\<rparr>" "\<lparr>x = 6, y = 10\<rparr> # snake scenarioA" "[1/2, 1/2]" fedA]
    scenarioA_reachable stepA_scenario a
  show ?thesis by simp
qed

end
